theory Spec2Isabelle
  imports Main "HOL-Library.AList"
begin

section \<open>Data model\<close>

text \<open>
  The three tables the handlers of \<open>app.py\<close> read and write. Rows are kept in insertion
  order. Python integers are \<open>int\<close>; a column that may hold NULL is an \<open>option\<close>; a
  Python \<open>str\<close> is the list of the bytes of its UTF-8 encoding (equality, emptiness and
  the search for an ASCII substring are the same on the bytes as on the characters).
\<close>

record question =
  q_id :: int
  q_text :: string

text \<open>
  The four columns of \<open>Answers\<close> that the code inserts and selects (the generated row id
  of an answer is never read).
\<close>

record answer =
  question_id :: int
  user_id :: string
  audio_filename :: string
  timestamp :: int

text \<open>The single row of \<open>CoupleState\<close> with \<open>id = 1\<close>.\<close>

record couple_state =
  love_points :: int
  streak_count :: int
  last_streak_update_date :: "string option"
  daily_progress_date :: "string option"
  daily_random_answered :: int
  daily_manual_answered :: int

text \<open>
  The committed content of the database; \<open>state_row\<close> is \<open>None\<close> when the row with
  \<open>id = 1\<close> is missing.
\<close>

record database =
  questions :: "question list"
  answers :: "answer list"
  state_row :: "couple_state option"

text \<open>The upload folder: the names of the files it holds.\<close>

type_synonym blob_store = "string set"

section \<open>Utility functions\<close>

definition ALLOWED_EXTENSIONS :: "string list" where
  "ALLOWED_EXTENSIONS = [''webm'', ''mp3'', ''ogg'', ''wav'', ''m4a'']"

text \<open>
  \<open>str.lower\<close> on the ASCII letters; the other bytes are left as they are. No
  character outside ASCII has a lower case that spells an entry of
  \<open>ALLOWED_EXTENSIONS\<close>, so \<open>allowed_file\<close> decides as the code does, and the extension
  of an allowed file is ASCII.
\<close>

definition lower_char :: "char \<Rightarrow> char" where
  "lower_char c =
     (case map_of (zip ''ABCDEFGHIJKLMNOPQRSTUVWXYZ'' ''abcdefghijklmnopqrstuvwxyz'') c of
        Some l \<Rightarrow> l
      | None \<Rightarrow> c)"

definition lower :: "string \<Rightarrow> string" where
  "lower s = map lower_char s"

text \<open>\<open>s.rsplit('.', 1)[1]\<close> for a string that contains a dot: what follows the last dot.\<close>

definition rsplit_ext :: "string \<Rightarrow> string" where
  "rsplit_ext s = rev (takeWhile (\<lambda>c. c \<noteq> CHR ''.'') (rev s))"

definition allowed_file :: "string \<Rightarrow> bool" where
  "allowed_file filename =
     (CHR ''.'' \<in> set filename \<and> lower (rsplit_ext filename) \<in> set ALLOWED_EXTENSIONS)"

text \<open>
  \<open>str.isspace\<close> on one character, given by its bytes. The characters it accepts are
  U+0009 to U+000D, U+001C to U+0020, U+0085, U+00A0, U+1680, U+2000 to U+200A, U+2028,
  U+2029, U+202F, U+205F and U+3000; \<open>whitespace\<close> lists their UTF-8 encodings.
\<close>

definition whitespace :: "string list" where
  "whitespace =
     [[CHR 0x09], [CHR 0x0A], [CHR 0x0B], [CHR 0x0C], [CHR 0x0D],
      [CHR 0x1C], [CHR 0x1D], [CHR 0x1E], [CHR 0x1F], [CHR 0x20],
      [CHR 0xC2, CHR 0x85], [CHR 0xC2, CHR 0xA0],
      [CHR 0xE1, CHR 0x9A, CHR 0x80],
      [CHR 0xE2, CHR 0x80, CHR 0x80], [CHR 0xE2, CHR 0x80, CHR 0x81],
      [CHR 0xE2, CHR 0x80, CHR 0x82], [CHR 0xE2, CHR 0x80, CHR 0x83],
      [CHR 0xE2, CHR 0x80, CHR 0x84], [CHR 0xE2, CHR 0x80, CHR 0x85],
      [CHR 0xE2, CHR 0x80, CHR 0x86], [CHR 0xE2, CHR 0x80, CHR 0x87],
      [CHR 0xE2, CHR 0x80, CHR 0x88], [CHR 0xE2, CHR 0x80, CHR 0x89],
      [CHR 0xE2, CHR 0x80, CHR 0x8A],
      [CHR 0xE2, CHR 0x80, CHR 0xA8], [CHR 0xE2, CHR 0x80, CHR 0xA9],
      [CHR 0xE2, CHR 0x80, CHR 0xAF],
      [CHR 0xE2, CHR 0x81, CHR 0x9F],
      [CHR 0xE3, CHR 0x80, CHR 0x80]]"

definition isspace :: "string \<Rightarrow> bool" where
  "isspace c = (c \<in> set whitespace)"

text \<open>
  Removing the whitespace characters at the front of a string: a character of
  \<open>whitespace\<close> takes one, two or three bytes. \<open>is_space\<close> is the test on the bytes of
  one character.
\<close>

fun strip_left :: "(string \<Rightarrow> bool) \<Rightarrow> string \<Rightarrow> string" where
  "strip_left is_space (a # b # c # s) =
     (if is_space [a] then strip_left is_space (b # c # s)
      else if is_space [a, b] then strip_left is_space (c # s)
      else if is_space [a, b, c] then strip_left is_space s
      else a # b # c # s)"
| "strip_left is_space [a, b] =
     (if is_space [a] then strip_left is_space [b]
      else if is_space [a, b] then []
      else [a, b])"
| "strip_left is_space [a] = (if is_space [a] then [] else [a])"
| "strip_left is_space [] = []"

text \<open>
  \<open>str.strip()\<close>: the whitespace at the front is removed, then that at the end (the
  same on the reversed string, where the bytes of a character come in reverse order).
\<close>

definition lstrip :: "string \<Rightarrow> string" where
  "lstrip s = strip_left isspace s"

definition rstrip :: "string \<Rightarrow> string" where
  "rstrip s = rev (strip_left (\<lambda>c. isspace (rev c)) (rev s))"

definition strip :: "string \<Rightarrow> string" where
  "strip s = rstrip (lstrip s)"

section \<open>The environment of one answer submission\<close>

text \<open>
  The statements inside the \<open>try\<close> block of \<open>post_answer\<close> that can raise: the
  statements on the database, \<open>audio_file.save\<close> and the commit (the \<open>print\<close> calls are
  logging and are taken not to raise). \<open>SaveAudio\<close> carries whether the file exists once
  \<open>audio_file.save\<close> has failed.
\<close>

datatype step =
    SelectQuestion
  | InsertQuestion
  | SaveAudio bool
  | InsertAnswer
  | CountAnswers
  | SelectState
  | UpdateState
  | Commit

text \<open>
  What a submission reads from outside: the clock (each call of \<open>get_today_str\<close> and
  \<open>get_yesterday_str\<close> is a reading of its own), the generated uuid, the millisecond
  timestamp, the statement that raises (if any) with the text of its exception, and
  whether \<open>os.remove\<close> raises \<open>OSError\<close>.
\<close>

record env =
  env_today :: string
  env_yesterday :: string
  env_today_check :: string
  env_uuid :: string
  env_now_ms :: int
  env_fault :: "step option"
  env_fault_msg :: string
  env_remove_fails :: bool

text \<open>
  \<open>request.form\<close> and \<open>request.files\<close>: a key that is absent is \<open>None\<close>; the uploaded
  file is known by its filename.
\<close>

record request =
  form_userId :: "string option"
  form_questionText :: "string option"
  form_source :: "string option"
  files_audioFile :: "string option"

text \<open>
  The JSON object of \<open>/api/state\<close>; the object of \<open>/api/answer\<close> has the same keys
  and \<open>pointAwarded\<close> (its \<open>message\<close> is a constant).
\<close>

record state_response =
  lovePoints :: int
  streak :: int
  lastStreakUpdateDate :: "string option"
  dailyRandomAnswered :: int
  dailyManualAnswered :: int

record answer_response = state_response +
  pointAwarded :: int

datatype 'a response =
    Ok 'a
  | Created 'a
  | BadRequest string
  | NotFound string
  | ServerError string

section \<open>The answer submission\<close>

definition other_user_of :: "string \<Rightarrow> string" where
  "other_user_of user = (if user = ''nidhi'' then ''arpan'' else ''nidhi'')"

text \<open>
  \<open>cursor.lastrowid\<close> after the \<open>INSERT\<close>: the tables are declared in \<open>schema.sql\<close>; the
  id of a question is taken to be SQLite's row id, one more than the largest in use and
  1 in an empty table.
\<close>

fun max_id :: "question list \<Rightarrow> int" where
  "max_id [] = 0"
| "max_id (q # qs) = max (q_id q) (max_id qs)"

definition lastrowid :: "question list \<Rightarrow> int" where
  "lastrowid qs = max_id qs + 1"

text \<open>Lines 235 to 241: look the question up by its text, insert it when absent.\<close>

definition process_question :: "env \<Rightarrow> string \<Rightarrow> database \<Rightarrow> string + (int \<times> database)" where
  "process_question e question_text db =
     (if env_fault e = Some SelectQuestion then Inl (env_fault_msg e)
      else case find (\<lambda>q. q_text q = question_text) (questions db) of
        Some question_row \<Rightarrow> Inr (q_id question_row, db)
      | None \<Rightarrow>
          if env_fault e = Some InsertQuestion then Inl (env_fault_msg e)
          else let new_id = lastrowid (questions db) in
            Inr (new_id,
              db\<lparr>questions := questions db @ [\<lparr>q_id = new_id, q_text = question_text\<rparr>]\<rparr>))"

text \<open>Lines 244 to 247: the generated name and \<open>audio_file.save\<close>.\<close>

definition unique_filename_of :: "env \<Rightarrow> string \<Rightarrow> string" where
  "unique_filename_of e filename = env_uuid e @ ''.'' @ lower (rsplit_ext filename)"

definition save_audio :: "env \<Rightarrow> string \<Rightarrow> blob_store \<Rightarrow> (string \<times> blob_store) + blob_store" where
  "save_audio e filepath fs =
     (case env_fault e of
        Some (SaveAudio created) \<Rightarrow>
          Inl (env_fault_msg e, if created then insert filepath fs else fs)
      | _ \<Rightarrow> Inr (insert filepath fs))"

text \<open>Lines 251 to 255.\<close>

definition insert_answer :: "env \<Rightarrow> int \<Rightarrow> string \<Rightarrow> string \<Rightarrow> database \<Rightarrow> string + database" where
  "insert_answer e qid user unique_filename db =
     (if env_fault e = Some InsertAnswer then Inl (env_fault_msg e)
      else Inr (db\<lparr>answers := answers db @
        [\<lparr>question_id = qid, user_id = user, audio_filename = unique_filename,
          timestamp = env_now_ms e\<rparr>]\<rparr>))"

text \<open>Lines 262 to 275.\<close>

definition other_answered_count :: "database \<Rightarrow> int \<Rightarrow> string \<Rightarrow> nat" where
  "other_answered_count db qid other =
     length (filter (\<lambda>a. question_id a = qid \<and> user_id a = other) (answers db))"

definition points_for :: "nat \<Rightarrow> int" where
  "points_for cnt = (if cnt = 0 then 1 else 5)"

text \<open>Lines 288 to 332: the new row, from the row read and the points to add.\<close>

definition new_state :: "env \<Rightarrow> string \<Rightarrow> int \<Rightarrow> couple_state \<Rightarrow> couple_state" where
  "new_state e source points_to_add state =
     (let current_points = love_points state;
          current_streak = streak_count state;
          last_update_date_str = last_streak_update_date state;
          new_points = current_points + points_to_add;
          today_str = env_today e;
          yesterday_str = env_yesterday e;
          (new_streak, new_last_update_date) =
            (if points_to_add > 0 \<and> last_update_date_str \<noteq> Some today_str
             then (if last_update_date_str = Some yesterday_str then current_streak + 1 else 1,
                   Some today_str)
             else (current_streak, last_update_date_str));
          (progress_date, daily_random0, daily_manual0) =
            (if daily_progress_date state \<noteq> Some today_str
             then (Some today_str, 0, 0)
             else (daily_progress_date state, daily_random_answered state,
                   daily_manual_answered state));
          (daily_random, daily_manual) =
            (if source = ''random'' \<and> daily_random0 = 0 then (1, daily_manual0)
             else if source = ''manual'' \<and> daily_manual0 = 0 then (daily_random0, 1)
             else (daily_random0, daily_manual0))
      in \<lparr>love_points = new_points, streak_count = new_streak,
          last_streak_update_date = new_last_update_date,
          daily_progress_date = progress_date,
          daily_random_answered = daily_random, daily_manual_answered = daily_manual\<rparr>)"

text \<open>Lines 258 to 343: count, read the row, compute, \<open>UPDATE\<close>.\<close>

definition update_state :: "env \<Rightarrow> string \<Rightarrow> int \<Rightarrow> string \<Rightarrow> database \<Rightarrow> string + (int \<times> database)" where
  "update_state e user qid source db =
     (if env_fault e = Some CountAnswers then Inl (env_fault_msg e)
      else let points_to_add = points_for (other_answered_count db qid (other_user_of user)) in
        if env_fault e = Some SelectState then Inl (env_fault_msg e)
        else case state_row db of
          None \<Rightarrow> Inl ''CoupleState not found during update''
        | Some state \<Rightarrow>
            if env_fault e = Some UpdateState then Inl (env_fault_msg e)
            else Inr (points_to_add,
              db\<lparr>state_row := Some (new_state e source points_to_add state)\<rparr>))"

text \<open>
  How the \<open>try\<close> block ends: with an exception (its text, \<open>filepath\<close> when that local
  is bound, the upload folder at that moment), or committed (the points awarded, the
  database written, the upload folder).
\<close>

datatype outcome =
    Raised string "string option" blob_store
  | Committed int database blob_store

definition transaction_body ::
  "env \<Rightarrow> string \<Rightarrow> string \<Rightarrow> string \<Rightarrow> string \<Rightarrow> database \<Rightarrow> blob_store \<Rightarrow> outcome" where
  "transaction_body e user question_text source filename db fs =
     (case process_question e question_text db of
        Inl err \<Rightarrow> Raised err None fs
      | Inr (qid, db1) \<Rightarrow>
          (let unique_filename = unique_filename_of e filename;
               filepath = unique_filename
           in (case save_audio e filepath fs of
             Inl (err, fs1) \<Rightarrow> Raised err (Some filepath) fs1
           | Inr fs1 \<Rightarrow>
               (case insert_answer e qid user unique_filename db1 of
                  Inl err \<Rightarrow> Raised err (Some filepath) fs1
                | Inr db2 \<Rightarrow>
                    (case update_state e user qid source db2 of
                       Inl err \<Rightarrow> Raised err (Some filepath) fs1
                     | Inr (points, db3) \<Rightarrow>
                         (if env_fault e = Some Commit
                          then Raised (env_fault_msg e) (Some filepath) fs1
                          else Committed points db3 fs1))))))"

text \<open>Lines 354 to 359: the file is removed when it exists, unless \<open>os.remove\<close> fails.\<close>

definition cleanup :: "env \<Rightarrow> string option \<Rightarrow> blob_store \<Rightarrow> blob_store" where
  "cleanup e filepath fs =
     (case filepath of
        None \<Rightarrow> fs
      | Some p \<Rightarrow> if p \<in> fs \<and> \<not> env_remove_fails e then fs - {p} else fs)"

text \<open>Lines 363 to 383: the row is read again and reported.\<close>

definition final_response :: "env \<Rightarrow> int \<Rightarrow> database \<Rightarrow> answer_response" where
  "final_response e point_awarded_this_time db =
     (case state_row db of
        Some final_state \<Rightarrow>
          \<lparr>lovePoints = love_points final_state,
           streak = streak_count final_state,
           lastStreakUpdateDate = last_streak_update_date final_state,
           dailyRandomAnswered =
             (if daily_progress_date final_state = Some (env_today_check e)
              then daily_random_answered final_state else 0),
           dailyManualAnswered =
             (if daily_progress_date final_state = Some (env_today_check e)
              then daily_manual_answered final_state else 0),
           pointAwarded = point_awarded_this_time\<rparr>
      | None \<Rightarrow>
          \<lparr>lovePoints = 0, streak = 0,
           lastStreakUpdateDate = Some (env_yesterday e),
           dailyRandomAnswered = 0, dailyManualAnswered = 0,
           pointAwarded = point_awarded_this_time\<rparr>)"

text \<open>
  The input validation of lines 211 to 230: the reason of the 400 response, or the
  values the transaction works with (\<open>user_id\<close>, the stripped \<open>question_text\<close>,
  \<open>source\<close>, the filename of the upload). A \<open>FileStorage\<close> is falsy when its filename
  is empty.
\<close>

definition validate :: "request \<Rightarrow> string + (string \<times> string \<times> string \<times> string)" where
  "validate req =
     (case form_userId req of
        None \<Rightarrow> Inl ''Missing or invalid userId''
      | Some user \<Rightarrow>
     (if user \<notin> set [''nidhi'', ''arpan''] then Inl ''Missing or invalid userId''
      else (case form_questionText req of
        None \<Rightarrow> Inl ''Missing questionText''
      | Some raw_text \<Rightarrow>
     (if raw_text = [] then Inl ''Missing questionText''
      else (case form_source req of
        None \<Rightarrow> Inl ''Missing or invalid source''
      | Some source \<Rightarrow>
     (if source \<notin> set [''manual'', ''random''] then Inl ''Missing or invalid source''
      else (case files_audioFile req of
        None \<Rightarrow> Inl ''Missing audioFile''
      | Some filename \<Rightarrow>
     (let question_text = strip raw_text in
      if filename = [] \<or> \<not> allowed_file filename then Inl ''Invalid audio file type''
      else Inr (user, question_text, source, filename)))))))))"

text \<open>
  \<open>post_answer\<close>: the validation, the \<open>try\<close> block, the handler of line 350
  (\<open>db.rollback()\<close> gives back the committed database) and the response.
\<close>

definition post_answer ::
  "env \<Rightarrow> request \<Rightarrow> database \<Rightarrow> blob_store \<Rightarrow> answer_response response \<times> database \<times> blob_store" where
  "post_answer e req db fs =
     (case validate req of
        Inl reason \<Rightarrow> (BadRequest reason, db, fs)
      | Inr (user, question_text, source, filename) \<Rightarrow>
          (case transaction_body e user question_text source filename db fs of
             Raised err filepath fs1 \<Rightarrow>
               (ServerError (''Failed to process answer: '' @ err), db, cleanup e filepath fs1)
           | Committed points db3 fs1 \<Rightarrow>
               (Created (final_response e points db3), db3, fs1)))"

section \<open>The state snapshot\<close>

text \<open>
  \<open>get_state\<close>, lines 126 to 156. \<open>raises\<close> says that a statement of the \<open>try\<close> block
  raised (a failing store). The handler executes one \<open>SELECT\<close>; the database is returned
  beside the response, as the handler leaves it.
\<close>

definition get_state ::
  "string \<Rightarrow> bool \<Rightarrow> database \<Rightarrow> state_response response \<times> database" where
  "get_state today_str raises db =
     (if raises then (ServerError ''Database error fetching state'', db)
      else case state_row db of
        Some row \<Rightarrow>
          (Ok \<lparr>lovePoints = love_points row,
               streak = streak_count row,
               lastStreakUpdateDate = last_streak_update_date row,
               dailyRandomAnswered =
                 (if daily_progress_date row = Some today_str
                  then daily_random_answered row else 0),
               dailyManualAnswered =
                 (if daily_progress_date row = Some today_str
                  then daily_manual_answered row else 0)\<rparr>, db)
      | None \<Rightarrow> (ServerError ''Could not retrieve couple state'', db))"

section \<open>The history\<close>

text \<open>
  A Python \<open>dict\<close> is an association list in insertion order: \<open>d[k] = v\<close> is
  \<open>AList.update k v d\<close>, \<open>k in d\<close> and \<open>d[k]\<close> are \<open>map_of d k\<close>.
\<close>

record history_answer =
  audioUrl :: string
  h_timestamp :: int

record history_question =
  h_id :: int
  h_text :: string
  h_answers :: "(string \<times> history_answer) list"

text \<open>\<open>url_for('serve_audio', filename=...)\<close> under the route \<open>/api/audio/<path:filename>\<close>.\<close>

definition url_for_serve_audio :: "string \<Rightarrow> string" where
  "url_for_serve_audio filename = ''/api/audio/'' @ filename"

text \<open>\<open>SELECT id, text FROM Questions ORDER BY id DESC\<close> and the dict built from its rows.\<close>

definition select_questions_desc :: "database \<Rightarrow> question list" where
  "select_questions_desc db = rev (sort_key q_id (questions db))"

definition questions_dict :: "question list \<Rightarrow> (int \<times> history_question) list" where
  "questions_dict rows =
     foldl (\<lambda>d row. AList.update (q_id row)
        \<lparr>h_id = q_id row, h_text = q_text row, h_answers = []\<rparr> d) [] rows"

text \<open>
  \<open>SELECT ... FROM Answers ORDER BY timestamp DESC\<close>; rows of equal timestamp are left
  in insertion order.
\<close>

definition select_answers_desc :: "database \<Rightarrow> answer list" where
  "select_answers_desc db = sort_key (\<lambda>a. - timestamp a) (answers db)"

text \<open>The body of the loop of lines 172 to 184.\<close>

definition add_answer ::
  "answer \<Rightarrow> (int \<times> history_question) list \<Rightarrow> (int \<times> history_question) list" where
  "add_answer answer_row qs =
     (let qid = question_id answer_row in
      case map_of qs qid of
        None \<Rightarrow> qs
      | Some q \<Rightarrow>
          (let user = user_id answer_row;
               audio_url = url_for_serve_audio (audio_filename answer_row);
               entry = \<lparr>audioUrl = audio_url, h_timestamp = timestamp answer_row\<rparr>;
               stored = AList.update qid (q\<lparr>h_answers := AList.update user entry (h_answers q)\<rparr>) qs
           in (case map_of (h_answers q) user of
                 None \<Rightarrow> stored
               | Some old \<Rightarrow> if timestamp answer_row > h_timestamp old then stored else qs)))"

text \<open>
  The sort key of lines 187 to 189: the greatest timestamp among the answers kept, 0
  when there is none.
\<close>

definition latest_timestamp :: "history_question \<Rightarrow> int" where
  "latest_timestamp q =
     (case map (\<lambda>(u, a). h_timestamp a) (h_answers q) of
        [] \<Rightarrow> 0
      | t # ts \<Rightarrow> fold max ts t)"

text \<open>Lines 165 to 184: the dict \<open>questions\<close> once the loop over the answers has run.\<close>

definition collect_answers :: "database \<Rightarrow> (int \<times> history_question) list" where
  "collect_answers db =
     fold add_answer (select_answers_desc db) (questions_dict (select_questions_desc db))"

text \<open>
  \<open>sorted(..., key=k, reverse=True)\<close> is stable: it is the stable ascending sort on the
  negated key.
\<close>

definition get_history :: "bool \<Rightarrow> database \<Rightarrow> history_question list response" where
  "get_history raises db =
     (if raises then ServerError ''Database error fetching history''
      else let questions1 = collect_answers db;
               history_list = sort_key (\<lambda>q. - latest_timestamp q) (map snd questions1)
           in Ok history_list)"

subsection \<open>What the loop over the answers maintains\<close>

text \<open>
  For the proofs about \<open>collect_answers\<close>: the entry the loop stores for an answer row;
  \<open>latest_for seen qid u r\<close> says that \<open>r\<close> is what must be kept for user \<open>u\<close> under
  question \<open>qid\<close> once the rows \<open>seen\<close> are processed (nothing when no row matches, else
  the entry of a matching row of greatest timestamp).
\<close>

definition entry_of :: "answer \<Rightarrow> history_answer" where
  "entry_of a = \<lparr>audioUrl = url_for_serve_audio (audio_filename a), h_timestamp = timestamp a\<rparr>"

definition latest_for :: "answer set \<Rightarrow> int \<Rightarrow> string \<Rightarrow> history_answer option \<Rightarrow> bool" where
  "latest_for seen qid u r \<longleftrightarrow>
     (r = None \<longrightarrow> (\<forall>a\<in>seen. \<not> (question_id a = qid \<and> user_id a = u)))
     \<and> (\<forall>en. r = Some en \<longrightarrow>
           (\<exists>a\<in>seen. question_id a = qid \<and> user_id a = u \<and> en = entry_of a)
           \<and> (\<forall>a\<in>seen. question_id a = qid \<and> user_id a = u
                 \<longrightarrow> timestamp a \<le> h_timestamp en))"

definition kept_latest :: "answer set \<Rightarrow> int \<Rightarrow> (string \<times> history_answer) list \<Rightarrow> bool" where
  "kept_latest seen qid kept \<longleftrightarrow>
     distinct (map fst kept) \<and> (\<forall>u. latest_for seen qid u (map_of kept u))"

definition history_inv :: "answer set \<Rightarrow> (int \<times> history_question) list \<Rightarrow> bool" where
  "history_inv seen d \<longleftrightarrow>
     distinct (map fst d)
     \<and> (\<forall>k q. map_of d k = Some q \<longrightarrow> h_id q = k \<and> kept_latest seen k (h_answers q))"

section \<open>The pending questions\<close>

record pending_question =
  p_id :: int
  p_text :: string
  asked_by :: string
  p_timestamp :: int

text \<open>
  \<open>SELECT DISTINCT q.id, q.text FROM Questions q JOIN Answers a ON q.id = a.question_id
  WHERE a.user_id = ?\<close>, the rows in the order of the \<open>Questions\<close> table.
\<close>

definition select_answered_questions :: "database \<Rightarrow> string \<Rightarrow> (int \<times> string) list" where
  "select_answered_questions db user =
     remdups (concat (map (\<lambda>q.
        map (\<lambda>a. (q_id q, q_text q))
          (filter (\<lambda>a. q_id q = question_id a \<and> user_id a = user) (answers db)))
        (questions db)))"

definition dict_of_rows :: "(int \<times> string) list \<Rightarrow> (int \<times> string) list" where
  "dict_of_rows rows = foldl (\<lambda>d row. AList.update (fst row) (snd row) d) [] rows"

text \<open>
  \<open>SELECT DISTINCT question_id FROM Answers WHERE user_id = ? AND question_id IN (...)\<close>.
\<close>

definition select_answered_ids :: "database \<Rightarrow> string \<Rightarrow> int list \<Rightarrow> int list" where
  "select_answered_ids db user ids =
     remdups (map question_id
       (filter (\<lambda>a. user_id a = user \<and> question_id a \<in> set ids) (answers db)))"

text \<open>
  \<open>SELECT MAX(timestamp) FROM Answers WHERE question_id = ? AND user_id = ?\<close>: NULL when
  no row matches.
\<close>

definition select_max_timestamp :: "database \<Rightarrow> int \<Rightarrow> string \<Rightarrow> int option" where
  "select_max_timestamp db qid user =
     (case map timestamp
        (filter (\<lambda>a. question_id a = qid \<and> user_id a = user) (answers db)) of
        [] \<Rightarrow> None
      | t # ts \<Rightarrow> Some (fold max ts t))"

definition pending_entry :: "database \<Rightarrow> string \<Rightarrow> int \<times> string \<Rightarrow> pending_question" where
  "pending_entry db other_user item =
     (case item of (qid, text) \<Rightarrow>
        \<lparr>p_id = qid, p_text = text, asked_by = other_user,
         p_timestamp =
           (case select_max_timestamp db qid other_user of
              None \<Rightarrow> 0
            | Some t \<Rightarrow> if t \<noteq> 0 then t else 0)\<rparr>)"

definition get_pending_questions ::
  "string \<Rightarrow> bool \<Rightarrow> database \<Rightarrow> pending_question list response" where
  "get_pending_questions user raises db =
     (if user \<notin> set [''nidhi'', ''arpan''] then BadRequest ''Invalid user ID''
      else let other_user = other_user_of user in
        if raises then ServerError ''Database error fetching pending questions''
        else let other_user_answered_questions =
                   dict_of_rows (select_answered_questions db other_user)
          in if other_user_answered_questions = [] then Ok []
             else let current_user_answered_ids =
                        select_answered_ids db user (map fst other_user_answered_questions);
                      pending_questions =
                        map (pending_entry db other_user)
                          (filter (\<lambda>(qid, text). qid \<notin> set current_user_answered_ids)
                             other_user_answered_questions)
                  in Ok (sort_key (\<lambda>p. - p_timestamp p) pending_questions))"

section \<open>Serving an audio file\<close>

text \<open>
  How a call of \<open>send_from_directory\<close> ends, as far as the handler tells the cases
  apart: it returns the file, raises \<open>FileNotFoundError\<close>, raises
  \<open>werkzeug.exceptions.NotFound\<close> (an \<open>HTTPException\<close>, so an \<open>Exception\<close> that is not a
  \<open>FileNotFoundError\<close>), or raises another exception.
\<close>

datatype send_result =
    Sent string
  | RaisesFileNotFoundError
  | RaisesNotFound
  | RaisesException

text \<open>
  \<open>send_from_directory\<close> is Flask's function, not a file of the repository: for a path
  under the directory it sends the file when the path names an existing file, and
  raises \<open>NotFound\<close> when it does not.
\<close>

definition send_from_directory :: "blob_store \<Rightarrow> string \<Rightarrow> send_result" where
  "send_from_directory fs filename =
     (if filename \<in> fs then Sent filename else RaisesNotFound)"

definition startswith :: "string \<Rightarrow> string \<Rightarrow> bool" where
  "startswith s p = (take (length p) s = p)"

text \<open>\<open>sub in s\<close> on strings.\<close>

fun contains :: "string \<Rightarrow> string \<Rightarrow> bool" where
  "contains [] sub = (sub = [])"
| "contains (c # cs) sub = (startswith (c # cs) sub \<or> contains cs sub)"

text \<open>
  \<open>serve_audio\<close>, lines 386 to 405; \<open>send\<close> is the call of \<open>send_from_directory\<close> on the
  upload folder. The first \<open>except\<close> clause catches \<open>FileNotFoundError\<close>, the second
  every other \<open>Exception\<close>.
\<close>

definition serve_audio :: "(string \<Rightarrow> send_result) \<Rightarrow> string \<Rightarrow> string response" where
  "serve_audio send filename =
     (if contains filename ''..'' \<or> startswith filename ''/''
      then BadRequest ''Invalid filename''
      else case send filename of
        Sent file \<Rightarrow> Ok file
      | RaisesFileNotFoundError \<Rightarrow> NotFound ''Audio file not found''
      | RaisesNotFound \<Rightarrow> ServerError ''Error serving audio file''
      | RaisesException \<Rightarrow> ServerError ''Error serving audio file'')"

section \<open>Initialisation and runs of the system\<close>

text \<open>
  Lines 71 to 83 of \<open>init_db\<close>: the row with \<open>id = 1\<close> is inserted when it is absent.
  The \<open>INSERT\<close> names four columns; the other three get the defaults of \<open>schema.sql\<close>,
  which are parameters here.
\<close>

definition init_couple_state :: "string \<Rightarrow> string option \<Rightarrow> int \<Rightarrow> int \<Rightarrow> database \<Rightarrow> database" where
  "init_couple_state yesterday_str default_date default_random default_manual db =
     (case state_row db of
        None \<Rightarrow>
          db\<lparr>state_row := Some
            \<lparr>love_points = 0, streak_count = 0,
             last_streak_update_date = Some yesterday_str,
             daily_progress_date = default_date,
             daily_random_answered = default_random,
             daily_manual_answered = default_manual\<rparr>\<rparr>
      | Some row \<Rightarrow> db)"

text \<open>The requests the application serves, each with what it reads from outside.\<close>

datatype operation =
    PostAnswer env request
  | GetState string bool
  | GetHistory bool
  | GetPending string bool
  | ServeAudio "string \<Rightarrow> send_result" string

text \<open>
  The database and the upload folder after a request. Only \<open>post_answer\<close> and
  \<open>get_state\<close> hand a database back; the other handlers compute a response from it.
\<close>

fun handle :: "operation \<Rightarrow> database \<times> blob_store \<Rightarrow> database \<times> blob_store" where
  "handle (PostAnswer e req) (db, fs) = snd (post_answer e req db fs)"
| "handle (GetState today_str raises) (db, fs) = (snd (get_state today_str raises db), fs)"
| "handle (GetHistory raises) (db, fs) = (db, fs)"
| "handle (GetPending user raises) (db, fs) = (db, fs)"
| "handle (ServeAudio send filename) (db, fs) = (db, fs)"

definition run :: "operation list \<Rightarrow> database \<times> blob_store \<Rightarrow> database \<times> blob_store" where
  "run ops sys = fold handle ops sys"

text \<open>\<open>love_points\<close> of the stored row, when there is one.\<close>

definition stored_points :: "database \<times> blob_store \<Rightarrow> int option" where
  "stored_points sys = map_option love_points (state_row (fst sys))"

section \<open>A worked run\<close>

text \<open>
  The example of the specification: on a fresh database the first identity answers
  "Favorite color?", then the second one answers it on the same day.
\<close>

definition ex_env :: "string \<Rightarrow> int \<Rightarrow> env" where
  "ex_env uuid now =
     \<lparr>env_today = ''2024-05-02'', env_yesterday = ''2024-05-01'',
      env_today_check = ''2024-05-02'', env_uuid = uuid, env_now_ms = now,
      env_fault = None, env_fault_msg = [], env_remove_fails = False\<rparr>"

definition ex_request :: "string \<Rightarrow> string \<Rightarrow> request" where
  "ex_request user text =
     \<lparr>form_userId = Some user, form_questionText = Some text,
      form_source = Some ''manual'', files_audioFile = Some ''answer.WebM''\<rparr>"

definition ex_state :: "int \<Rightarrow> int \<Rightarrow> string \<Rightarrow> string option \<Rightarrow> int \<Rightarrow> couple_state" where
  "ex_state points n updated progress manual =
     \<lparr>love_points = points, streak_count = n, last_streak_update_date = Some updated,
      daily_progress_date = progress, daily_random_answered = 0,
      daily_manual_answered = manual\<rparr>"

definition ex_answer :: "string \<Rightarrow> string \<Rightarrow> int \<Rightarrow> answer" where
  "ex_answer user file t =
     \<lparr>question_id = 1, user_id = user, audio_filename = file, timestamp = t\<rparr>"

definition ex_db0 :: database where
  "ex_db0 = \<lparr>questions = [], answers = [],
     state_row = Some (ex_state 0 0 ''2024-05-01'' None 0)\<rparr>"

definition ex_db1 :: database where
  "ex_db1 = \<lparr>questions = [\<lparr>q_id = 1, q_text = ''Favorite color?''\<rparr>],
     answers = [ex_answer ''nidhi'' ''u1.webm'' 1000],
     state_row = Some (ex_state 1 1 ''2024-05-02'' (Some ''2024-05-02'') 1)\<rparr>"

definition ex_db2 :: database where
  "ex_db2 = \<lparr>questions = [\<lparr>q_id = 1, q_text = ''Favorite color?''\<rparr>],
     answers = [ex_answer ''nidhi'' ''u1.webm'' 1000, ex_answer ''arpan'' ''u2.webm'' 2000],
     state_row = Some (ex_state 6 1 ''2024-05-02'' (Some ''2024-05-02'') 1)\<rparr>"

definition ex_response :: "int \<Rightarrow> int \<Rightarrow> answer_response" where
  "ex_response awarded points =
     \<lparr>lovePoints = points, streak = 1, lastStreakUpdateDate = Some ''2024-05-02'',
      dailyRandomAnswered = 0, dailyManualAnswered = 1, pointAwarded = awarded\<rparr>"

text \<open>
  The second submission again, with a statement that raises; the database after a
  submission whose question text is three spaces; the tables before the row of
  \<open>CoupleState\<close> is inserted.
\<close>

definition ex_fault_env :: "step \<Rightarrow> bool \<Rightarrow> env" where
  "ex_fault_env s remove_fails =
     (ex_env ''u2'' 2000)\<lparr>env_fault := Some s, env_fault_msg := ''disk I/O error'',
        env_remove_fails := remove_fails\<rparr>"

definition ex_blank_db :: database where
  "ex_blank_db = \<lparr>questions = [\<lparr>q_id = 1, q_text = []\<rparr>],
     answers = [ex_answer ''nidhi'' ''u1.webm'' 1000],
     state_row = Some (ex_state 1 1 ''2024-05-02'' (Some ''2024-05-02'') 1)\<rparr>"

definition ex_empty_db :: database where
  "ex_empty_db = \<lparr>questions = [], answers = [], state_row = None\<rparr>"

text \<open>
  A database with four questions: the first answered by both, the second answered twice
  by one identity, the last two not answered; the history and the pending list it gives.
\<close>

definition ex_row :: "int \<Rightarrow> string \<Rightarrow> string \<Rightarrow> int \<Rightarrow> answer" where
  "ex_row qid user file t =
     \<lparr>question_id = qid, user_id = user, audio_filename = file, timestamp = t\<rparr>"

definition ex_hist_db :: database where
  "ex_hist_db = \<lparr>questions =
       [\<lparr>q_id = 1, q_text = ''Favorite color?''\<rparr>, \<lparr>q_id = 2, q_text = ''Best trip?''\<rparr>,
        \<lparr>q_id = 3, q_text = ''Dream home?''\<rparr>, \<lparr>q_id = 4, q_text = ''First song?''\<rparr>],
     answers =
       [ex_row 1 ''nidhi'' ''u1.webm'' 1000, ex_row 1 ''arpan'' ''u2.webm'' 2000,
        ex_row 2 ''nidhi'' ''u3.webm'' 1500, ex_row 2 ''nidhi'' ''u4.webm'' 3000],
     state_row = Some (ex_state 7 1 ''2024-05-02'' (Some ''2024-05-02'') 1)\<rparr>"

definition ex_history :: "history_question list" where
  "ex_history =
     [\<lparr>h_id = 2, h_text = ''Best trip?'', h_answers =
         [(''nidhi'', \<lparr>audioUrl = ''/api/audio/u4.webm'', h_timestamp = 3000\<rparr>)]\<rparr>,
      \<lparr>h_id = 1, h_text = ''Favorite color?'', h_answers =
         [(''arpan'', \<lparr>audioUrl = ''/api/audio/u2.webm'', h_timestamp = 2000\<rparr>),
          (''nidhi'', \<lparr>audioUrl = ''/api/audio/u1.webm'', h_timestamp = 1000\<rparr>)]\<rparr>,
      \<lparr>h_id = 4, h_text = ''First song?'', h_answers = []\<rparr>,
      \<lparr>h_id = 3, h_text = ''Dream home?'', h_answers = []\<rparr>]"

definition ex_pending :: "pending_question list" where
  "ex_pending =
     [\<lparr>p_id = 2, p_text = ''Best trip?'', asked_by = ''nidhi'', p_timestamp = 3000\<rparr>]"

text \<open>
  A question text padded with U+00A0 and U+3000; the database after the first identity
  has then answered a second question; \<open>ex_hist_db\<close> with one more answer, and the
  pending list it gives the first identity.
\<close>

definition ex_padded_text :: string where
  "ex_padded_text =
     [CHR 0xC2, CHR 0xA0] @ ''Favorite color?'' @ [CHR 0xE3, CHR 0x80, CHR 0x80]"

definition ex_db3 :: database where
  "ex_db3 = \<lparr>questions =
       [\<lparr>q_id = 1, q_text = ''Favorite color?''\<rparr>, \<lparr>q_id = 2, q_text = ''Best trip?''\<rparr>],
     answers = [ex_answer ''nidhi'' ''u1.webm'' 1000, ex_answer ''arpan'' ''u2.webm'' 2000,
       ex_row 2 ''nidhi'' ''u3.webm'' 3000],
     state_row = Some (ex_state 7 1 ''2024-05-02'' (Some ''2024-05-02'') 1)\<rparr>"

definition ex_pending_db :: database where
  "ex_pending_db =
     ex_hist_db\<lparr>answers := answers ex_hist_db @ [ex_row 3 ''arpan'' ''u5.webm'' 2500]\<rparr>"

definition ex_pending_nidhi :: "pending_question list" where
  "ex_pending_nidhi =
     [\<lparr>p_id = 3, p_text = ''Dream home?'', asked_by = ''arpan'', p_timestamp = 2500\<rparr>]"

section \<open>Evaluating a submission\<close>

lemmas post_answer_eval =
  post_answer_def validate_def transaction_body_def process_question_def lastrowid_def
  unique_filename_of_def save_audio_def insert_answer_def update_state_def
  other_answered_count_def points_for_def other_user_of_def new_state_def
  final_response_def cleanup_def allowed_file_def rsplit_ext_def lower_def lower_char_def
  ALLOWED_EXTENSIONS_def strip_def lstrip_def rstrip_def isspace_def whitespace_def Let_def

lemmas ex_defs =
  ex_env_def ex_request_def ex_state_def ex_answer_def ex_db0_def ex_db1_def ex_db2_def
  ex_response_def ex_fault_env_def ex_blank_db_def ex_empty_db_def ex_padded_text_def
  ex_db3_def ex_row_def

lemma ex_first_submission:
  "post_answer (ex_env ''u1'' 1000) (ex_request ''nidhi'' ''Favorite color?'') ex_db0 {}
     = (Created (ex_response 1 1), ex_db1, {''u1.webm''})"
  by (simp add: post_answer_eval ex_defs)

lemma ex_second_submission:
  "post_answer (ex_env ''u2'' 2000) (ex_request ''arpan'' '' Favorite color? '') ex_db1 {''u1.webm''}
     = (Created (ex_response 5 6), ex_db2, {''u2.webm'', ''u1.webm''})"
  by (simp add: post_answer_eval ex_defs)

section \<open>What a successful submission did\<close>

lemma find_append_None:
  "find P xs = None \<Longrightarrow> find P (xs @ ys) = find P ys"
  by (induction xs) (auto split: if_splits)

lemma other_user_of_neq: "other_user_of user \<noteq> user"
  by (simp add: other_user_of_def)

lemma process_question_InrD:
  assumes "process_question e t db = Inr (qid, db1)"
  shows "answers db1 = answers db" and "state_row db1 = state_row db"
    and "\<exists>q. find (\<lambda>q. q_text q = t) (questions db1) = Some q \<and> q_id q = qid"
  using assms
  by (auto simp: process_question_def Let_def find_append_None split: if_splits option.splits)

lemma update_state_InrD:
  assumes "update_state e user qid source db = Inr (points, db3)"
  shows "\<exists>st. state_row db = Some st
     \<and> points = points_for (other_answered_count db qid (other_user_of user))
     \<and> db3 = db\<lparr>state_row := Some (new_state e source points st)\<rparr>"
  using assms
  by (auto simp: update_state_def Let_def split: if_splits option.splits)

lemma insert_answer_InrD:
  assumes "insert_answer e qid user fn db = Inr db2"
  shows "db2 = db\<lparr>answers := answers db @
        [\<lparr>question_id = qid, user_id = user, audio_filename = fn, timestamp = env_now_ms e\<rparr>]\<rparr>"
  using assms by (auto simp: insert_answer_def split: if_splits)

lemma save_audio_InrD:
  assumes "save_audio e p fs = Inr fs1"
  shows "fs1 = insert p fs"
  using assms by (auto simp: save_audio_def split: option.splits step.splits)

lemma transaction_body_CommittedD:
  assumes "transaction_body e user t source filename db fs = Committed points db3 fs1"
  shows "\<exists>qid db1 st. process_question e t db = Inr (qid, db1)
     \<and> state_row db = Some st
     \<and> points = points_for (other_answered_count db3 qid (other_user_of user))
     \<and> db3 = db1\<lparr>answers := answers db @
          [\<lparr>question_id = qid, user_id = user, audio_filename = unique_filename_of e filename,
            timestamp = env_now_ms e\<rparr>],
          state_row := Some (new_state e source points st)\<rparr>
     \<and> fs1 = insert (unique_filename_of e filename) fs"
proof -
  let ?fn = "unique_filename_of e filename"
  from assms obtain qid db1 where pq: "process_question e t db = Inr (qid, db1)"
    by (auto simp: transaction_body_def split: sum.splits)
  from assms pq obtain fs1' where sa: "save_audio e ?fn fs = Inr fs1'"
    by (auto simp: transaction_body_def Let_def split: sum.splits)
  from assms pq sa obtain db2 where ia: "insert_answer e qid user ?fn db1 = Inr db2"
    by (auto simp: transaction_body_def Let_def split: sum.splits)
  from assms pq sa ia have us: "update_state e user qid source db2 = Inr (points, db3)"
    and fs1: "fs1 = fs1'"
    by (auto simp: transaction_body_def Let_def split: sum.splits if_splits)
  from update_state_InrD [OF us] obtain st where st: "state_row db2 = Some st"
    and pts: "points = points_for (other_answered_count db2 qid (other_user_of user))"
    and db3: "db3 = db2\<lparr>state_row := Some (new_state e source points st)\<rparr>"
    by blast
  have db2: "db2 = db1\<lparr>answers := answers db @
        [\<lparr>question_id = qid, user_id = user, audio_filename = ?fn, timestamp = env_now_ms e\<rparr>]\<rparr>"
    using insert_answer_InrD [OF ia] process_question_InrD(1) [OF pq] by simp
  have "state_row db = Some st"
    using st db2 process_question_InrD(2) [OF pq] by simp
  moreover have "other_answered_count db3 qid (other_user_of user)
      = other_answered_count db2 qid (other_user_of user)"
    by (simp add: db3 other_answered_count_def)
  moreover have "fs1 = insert ?fn fs"
    using save_audio_InrD [OF sa] fs1 by simp
  ultimately show ?thesis
    using pq pts db3 db2 by simp
qed

lemma validate_InrD:
  assumes "validate req = Inr (user, question_text, source, filename)"
  shows "\<exists>raw. form_userId req = Some user \<and> user \<in> {''nidhi'', ''arpan''}
     \<and> form_questionText req = Some raw \<and> raw \<noteq> [] \<and> question_text = strip raw
     \<and> form_source req = Some source \<and> source \<in> {''manual'', ''random''}
     \<and> files_audioFile req = Some filename \<and> allowed_file filename"
  using assms
  by (auto simp: validate_def Let_def split: option.splits if_splits)

lemma post_answer_CreatedD:
  assumes "post_answer e req db fs = (Created r, db', fs')"
  shows "\<exists>user raw source filename points.
     form_userId req = Some user \<and> user \<in> {''nidhi'', ''arpan''}
     \<and> form_questionText req = Some raw \<and> raw \<noteq> []
     \<and> form_source req = Some source \<and> source \<in> {''manual'', ''random''}
     \<and> files_audioFile req = Some filename \<and> allowed_file filename
     \<and> transaction_body e user (strip raw) source filename db fs = Committed points db' fs'
     \<and> r = final_response e points db'"
proof -
  from assms obtain user question_text source filename where
    v: "validate req = Inr (user, question_text, source, filename)"
    by (auto simp: post_answer_def split: sum.splits)
  from assms v obtain points where
    "transaction_body e user question_text source filename db fs = Committed points db' fs'"
    "r = final_response e points db'"
    by (auto simp: post_answer_def split: outcome.splits)
  with validate_InrD [OF v] show ?thesis by auto
qed

lemma post_answer_success:
  assumes "post_answer e req db fs = (Created r, db', fs')"
  shows "\<exists>user raw source filename qid db1 st points.
     form_userId req = Some user \<and> form_questionText req = Some raw
     \<and> form_source req = Some source \<and> files_audioFile req = Some filename
     \<and> process_question e (strip raw) db = Inr (qid, db1)
     \<and> state_row db = Some st
     \<and> points = points_for (other_answered_count db' qid (other_user_of user))
     \<and> db' = db1\<lparr>answers := answers db @
          [\<lparr>question_id = qid, user_id = user, audio_filename = unique_filename_of e filename,
            timestamp = env_now_ms e\<rparr>],
          state_row := Some (new_state e source points st)\<rparr>
     \<and> fs' = insert (unique_filename_of e filename) fs
     \<and> r = final_response e points db'"
proof -
  from post_answer_CreatedD [OF assms] obtain user raw source filename points where
    f: "form_userId req = Some user" "form_questionText req = Some raw"
       "form_source req = Some source" "files_audioFile req = Some filename"
    and tb: "transaction_body e user (strip raw) source filename db fs = Committed points db' fs'"
    and r: "r = final_response e points db'"
    by blast
  from transaction_body_CommittedD [OF tb] f r show ?thesis by blast
qed

lemma love_points_new_state: "love_points (new_state e source p st) = love_points st + p"
  by (simp add: new_state_def Let_def split: prod.splits)

lemma streak_new_state:
  "streak_count (new_state e source p st) =
     (if 0 < p \<and> last_streak_update_date st \<noteq> Some (env_today e)
      then (if last_streak_update_date st = Some (env_yesterday e) then streak_count st + 1 else 1)
      else streak_count st)"
  by (auto simp: new_state_def Let_def split: prod.splits)

lemma last_update_new_state:
  "last_streak_update_date (new_state e source p st) =
     (if 0 < p \<and> last_streak_update_date st \<noteq> Some (env_today e)
      then Some (env_today e) else last_streak_update_date st)"
  by (simp add: new_state_def Let_def split: prod.splits)

lemma points_for_cases: "points_for n = 1 \<or> points_for n = 5"
  by (simp add: points_for_def)

lemma points_for_pos: "0 < points_for n"
  by (simp add: points_for_def)

text \<open>
  A successful submission changed the stored row by \<open>new_state\<close>, with the points of the
  rule, and reports those points.
\<close>

lemma post_answer_state:
  assumes "post_answer e req db fs = (Created r, db', fs')"
  shows "\<exists>source st. state_row db = Some st
     \<and> state_row db' = Some (new_state e source (pointAwarded r) st)
     \<and> (pointAwarded r = 1 \<or> pointAwarded r = 5)"
proof -
  from post_answer_success [OF assms] obtain user source filename qid db1 st points where
    st: "state_row db = Some st"
    and pts: "points = points_for (other_answered_count db' qid (other_user_of user))"
    and db': "db' = db1\<lparr>answers := answers db @
          [\<lparr>question_id = qid, user_id = user, audio_filename = unique_filename_of e filename,
            timestamp = env_now_ms e\<rparr>],
          state_row := Some (new_state e source points st)\<rparr>"
    and r: "r = final_response e points db'"
    by blast
  have st': "state_row db' = Some (new_state e source points st)"
    by (subst db') simp
  have "pointAwarded r = points"
    using r st' by (simp add: final_response_def)
  then show ?thesis
    using st st' pts points_for_cases by auto
qed

section \<open>The point award\<close>

lemma post_answer_award:
  assumes "post_answer e req db fs = (Created r, db', fs')"
  shows "\<exists>user raw q st st'.
     form_userId req = Some user \<and> form_questionText req = Some raw
     \<and> find (\<lambda>q. q_text q = strip raw) (questions db') = Some q
     \<and> state_row db = Some st \<and> state_row db' = Some st'
     \<and> other_answered_count db' (q_id q) (other_user_of user)
         = other_answered_count db (q_id q) (other_user_of user)
     \<and> pointAwarded r =
         (if other_answered_count db' (q_id q) (other_user_of user) = 0 then 1 else 5)
     \<and> love_points st' = love_points st + pointAwarded r
     \<and> lovePoints r = love_points st'"
proof -
  from post_answer_success [OF assms] obtain user raw source filename qid db1 st points where
    f: "form_userId req = Some user" "form_questionText req = Some raw"
    and pq: "process_question e (strip raw) db = Inr (qid, db1)"
    and st: "state_row db = Some st"
    and pts: "points = points_for (other_answered_count db' qid (other_user_of user))"
    and db': "db' = db1\<lparr>answers := answers db @
          [\<lparr>question_id = qid, user_id = user, audio_filename = unique_filename_of e filename,
            timestamp = env_now_ms e\<rparr>],
          state_row := Some (new_state e source points st)\<rparr>"
    and r: "r = final_response e points db'"
    by blast
  from process_question_InrD(3) [OF pq] obtain q where
    q: "find (\<lambda>q. q_text q = strip raw) (questions db1) = Some q" "q_id q = qid"
    by blast
  have q': "find (\<lambda>q. q_text q = strip raw) (questions db') = Some q"
    using q(1) by (subst db') simp
  have st': "state_row db' = Some (new_state e source points st)"
    by (subst db') simp
  have cnt: "other_answered_count db' qid (other_user_of user)
      = other_answered_count db qid (other_user_of user)"
    using other_user_of_neq [of user]
    by (subst db') (auto simp: other_answered_count_def)
  have pa: "pointAwarded r = points"
    and lp: "lovePoints r = love_points (new_state e source points st)"
    using r st' by (simp_all add: final_response_def)
  show ?thesis
    using f q' q(2) st st' cnt pa lp pts
    by (simp add: love_points_new_state points_for_def)
qed

text \<open>\<open>strip\<close> removes whitespace outside ASCII too.\<close>

lemma strip_padded_text: "strip ex_padded_text = ''Favorite color?''"
  by (simp add: ex_padded_text_def strip_def lstrip_def rstrip_def isspace_def whitespace_def)

lemma other_answered_count_0_iff:
  "other_answered_count db qid other = 0 \<longleftrightarrow>
     (\<forall>a\<in>set (answers db). \<not> (question_id a = qid \<and> user_id a = other))"
  by (auto simp: other_answered_count_def filter_empty_conv)

lemma other_user_of_pair:
  assumes "user \<in> {''nidhi'', ''arpan''}"
  shows "(user = ''nidhi'' \<and> other_user_of user = ''arpan'')
     \<or> (user = ''arpan'' \<and> other_user_of user = ''nidhi'')"
  using assms by (auto simp: other_user_of_def)

lemma ex_padded_submission:
  "post_answer (ex_env ''u2'' 2000) (ex_request ''arpan'' ex_padded_text) ex_db1 {''u1.webm''}
     = (Created (ex_response 5 6), ex_db2, {''u2.webm'', ''u1.webm''})"
  by (simp add: post_answer_eval ex_defs)

lemma ex_third_submission:
  "post_answer (ex_env ''u3'' 3000) (ex_request ''nidhi'' ''Best trip?'') ex_db2
       {''u2.webm'', ''u1.webm''}
     = (Created (ex_response 1 7), ex_db3, {''u3.webm'', ''u2.webm'', ''u1.webm''})"
  by (simp add: post_answer_eval ex_defs)

text \<open>
  C1. When a submission succeeds, the user is one of the two identities and the
  counterpart is the other one. The points awarded are 1 when no answer row of the
  counterpart exists for the resolved question (the question whose text is the stripped
  text) at the time of the count, and 5 when at least one exists; the new row of the
  submitting user does not change which case holds. The stored \<open>love_points\<close> grows by
  exactly the points awarded, and \<open>pointAwarded\<close> of the response is that amount.
\<close>

theorem post_answer_points_awarded:
  assumes "post_answer e req db fs = (Created r, db', fs')"
  shows "\<exists>user counterpart raw q st st'.
     form_userId req = Some user \<and> form_questionText req = Some raw
     \<and> ((user = ''nidhi'' \<and> counterpart = ''arpan'')
          \<or> (user = ''arpan'' \<and> counterpart = ''nidhi''))
     \<and> find (\<lambda>q. q_text q = strip raw) (questions db') = Some q
     \<and> state_row db = Some st \<and> state_row db' = Some st'
     \<and> ((\<exists>a\<in>set (answers db'). question_id a = q_id q \<and> user_id a = counterpart)
          \<longleftrightarrow> (\<exists>a\<in>set (answers db). question_id a = q_id q \<and> user_id a = counterpart))
     \<and> ((\<forall>a\<in>set (answers db'). \<not> (question_id a = q_id q \<and> user_id a = counterpart))
          \<longrightarrow> pointAwarded r = 1)
     \<and> ((\<exists>a\<in>set (answers db'). question_id a = q_id q \<and> user_id a = counterpart)
          \<longrightarrow> pointAwarded r = 5)
     \<and> love_points st' = love_points st + pointAwarded r
     \<and> lovePoints r = love_points st'"
proof -
  from post_answer_award [OF assms] obtain user raw q st st' where
    f: "form_userId req = Some user" "form_questionText req = Some raw"
    and q: "find (\<lambda>q. q_text q = strip raw) (questions db') = Some q"
    and st: "state_row db = Some st" "state_row db' = Some st'"
    and cnt: "other_answered_count db' (q_id q) (other_user_of user)
         = other_answered_count db (q_id q) (other_user_of user)"
    and pa: "pointAwarded r =
         (if other_answered_count db' (q_id q) (other_user_of user) = 0 then 1 else 5)"
    and lp: "love_points st' = love_points st + pointAwarded r"
      "lovePoints r = love_points st'"
    by blast
  from post_answer_CreatedD [OF assms] f(1) have "user \<in> {''nidhi'', ''arpan''}" by auto
  note pair = other_user_of_pair [OF this]
  let ?c = "other_user_of user"
  have same: "(\<exists>a\<in>set (answers db'). question_id a = q_id q \<and> user_id a = ?c)
      \<longleftrightarrow> (\<exists>a\<in>set (answers db). question_id a = q_id q \<and> user_id a = ?c)"
    using cnt other_answered_count_0_iff [of db' "q_id q" ?c]
      other_answered_count_0_iff [of db "q_id q" ?c] by auto
  have one: "(\<forall>a\<in>set (answers db'). \<not> (question_id a = q_id q \<and> user_id a = ?c))
      \<longrightarrow> pointAwarded r = 1"
    using pa other_answered_count_0_iff [of db' "q_id q" ?c] by simp
  have five: "(\<exists>a\<in>set (answers db'). question_id a = q_id q \<and> user_id a = ?c)
      \<longrightarrow> pointAwarded r = 5"
    using pa other_answered_count_0_iff [of db' "q_id q" ?c] by auto
  show ?thesis
    by (intro exI [of _ user] exI [of _ ?c] exI [of _ raw] exI [of _ q] exI [of _ st]
        exI [of _ st'] conjI)
       (rule f q st pair same one five lp)+
qed

theorem post_answer_points_awarded_witness:
  "post_answer (ex_env ''u2'' 2000) (ex_request ''arpan'' ex_padded_text) ex_db1 {''u1.webm''}
     = (Created (ex_response 5 6), ex_db2, {''u2.webm'', ''u1.webm''})
   \<and> ex_answer ''nidhi'' ''u1.webm'' 1000 \<in> set (answers ex_db2)
   \<and> pointAwarded (ex_response 5 6) = 5
   \<and> post_answer (ex_env ''u3'' 3000) (ex_request ''nidhi'' ''Best trip?'') ex_db2
       {''u2.webm'', ''u1.webm''}
     = (Created (ex_response 1 7), ex_db3, {''u3.webm'', ''u2.webm'', ''u1.webm''})
   \<and> ex_answer ''arpan'' ''u2.webm'' 2000 \<in> set (answers ex_db3)
   \<and> list_all (\<lambda>a. \<not> (question_id a = 2 \<and> user_id a = ''arpan'')) (answers ex_db3)
   \<and> pointAwarded (ex_response 1 7) = 1"
proof -
  have five: "pointAwarded (ex_response 5 6) = 5"
    using post_answer_points_awarded [OF ex_padded_submission]
  proof (elim exE conjE, goal_cases)
    case (1 user counterpart raw q st st')
    from 1(1) have user: "user = ''arpan''" by (simp add: ex_request_def)
    with 1(3) have c: "counterpart = ''nidhi''" by auto
    from 1(2) have "raw = ex_padded_text" by (simp add: ex_request_def)
    with 1(4) have "q_id q = 1"
      by (auto simp: ex_db2_def ex_padded_text_def strip_def lstrip_def rstrip_def
          isspace_def whitespace_def split: if_splits)
    with c have "\<exists>a\<in>set (answers ex_db2). question_id a = q_id q \<and> user_id a = counterpart"
      by (simp add: ex_db2_def ex_answer_def)
    with 1(9) show ?case by (rule mp)
  qed
  have one: "pointAwarded (ex_response 1 7) = 1"
    using post_answer_points_awarded [OF ex_third_submission]
  proof (elim exE conjE, goal_cases)
    case (1 user counterpart raw q st st')
    from 1(1) have user: "user = ''nidhi''" by (simp add: ex_request_def)
    with 1(3) have c: "counterpart = ''arpan''" by auto
    from 1(2) have "raw = ''Best trip?''" by (simp add: ex_request_def)
    with 1(4) have "q_id q = 2"
      by (auto simp: ex_db3_def strip_def lstrip_def rstrip_def
          isspace_def whitespace_def split: if_splits)
    with c have "\<forall>a\<in>set (answers ex_db3). \<not> (question_id a = q_id q \<and> user_id a = counterpart)"
      by (simp add: ex_db3_def ex_answer_def ex_row_def)
    with 1(8) show ?case by (rule mp)
  qed
  have rows: "ex_answer ''nidhi'' ''u1.webm'' 1000 \<in> set (answers ex_db2)"
    "ex_answer ''arpan'' ''u2.webm'' 2000 \<in> set (answers ex_db3)"
    "list_all (\<lambda>a. \<not> (question_id a = 2 \<and> user_id a = ''arpan'')) (answers ex_db3)"
    by (simp_all add: ex_db2_def ex_db3_def ex_answer_def ex_row_def)
  from ex_padded_submission rows(1) five ex_third_submission rows(2,3) one
  show ?thesis by (intro conjI)
qed

section \<open>The streak\<close>

text \<open>
  C2. When a submission succeeds (it always awards points): if the stored
  \<open>last_streak_update_date\<close> is not today and is yesterday, \<open>streak_count\<close> grows by exactly 1
  and the date becomes today; if it is neither today nor yesterday, \<open>streak_count\<close>
  becomes 1 and the date becomes today; if it is today, both are unchanged. Hence a
  second successful submission on the same calendar day changes neither of them.
\<close>

theorem post_answer_streak:
  assumes "post_answer e req db fs = (Created r, db', fs')"
  shows "\<exists>st st'. state_row db = Some st \<and> state_row db' = Some st'
     \<and> (last_streak_update_date st \<noteq> Some (env_today e)
          \<and> last_streak_update_date st = Some (env_yesterday e)
         \<longrightarrow> streak_count st' = streak_count st + 1
             \<and> last_streak_update_date st' = Some (env_today e))
     \<and> (last_streak_update_date st \<noteq> Some (env_today e)
          \<and> last_streak_update_date st \<noteq> Some (env_yesterday e)
         \<longrightarrow> streak_count st' = 1 \<and> last_streak_update_date st' = Some (env_today e))
     \<and> (last_streak_update_date st = Some (env_today e)
         \<longrightarrow> streak_count st' = streak_count st
             \<and> last_streak_update_date st' = last_streak_update_date st)
     \<and> (\<forall>e2 req2 fs2 r2 db2 fs2'.
           env_today e2 = env_today e
           \<and> post_answer e2 req2 db' fs2 = (Created r2, db2, fs2')
         \<longrightarrow> (\<exists>st2. state_row db2 = Some st2
               \<and> streak_count st2 = streak_count st'
               \<and> last_streak_update_date st2 = last_streak_update_date st'))"
proof -
  from post_answer_state [OF assms] obtain source st where
    st: "state_row db = Some st"
    and st': "state_row db' = Some (new_state e source (pointAwarded r) st)"
    and p: "pointAwarded r = 1 \<or> pointAwarded r = 5"
    by blast
  let ?st' = "new_state e source (pointAwarded r) st"
  from p have pos: "0 < pointAwarded r" by auto
  have today: "last_streak_update_date ?st' = Some (env_today e)"
    using pos by (simp add: last_update_new_state)
  have second: "\<exists>st2. state_row db2 = Some st2
               \<and> streak_count st2 = streak_count ?st'
               \<and> last_streak_update_date st2 = last_streak_update_date ?st'"
    if "env_today e2 = env_today e" "post_answer e2 req2 db' fs2 = (Created r2, db2, fs2')"
    for e2 req2 fs2 r2 db2 fs2'
  proof -
    from post_answer_state [OF that(2)] st' obtain source2 where
      "state_row db2 = Some (new_state e2 source2 (pointAwarded r2) ?st')"
      by auto
    then show ?thesis
      using today that(1) by (simp add: streak_new_state last_update_new_state)
  qed
  have c1: "last_streak_update_date st \<noteq> Some (env_today e)
          \<and> last_streak_update_date st = Some (env_yesterday e)
         \<longrightarrow> streak_count ?st' = streak_count st + 1
             \<and> last_streak_update_date ?st' = Some (env_today e)"
    using pos by (simp add: streak_new_state last_update_new_state)
  have c2: "last_streak_update_date st \<noteq> Some (env_today e)
          \<and> last_streak_update_date st \<noteq> Some (env_yesterday e)
         \<longrightarrow> streak_count ?st' = 1 \<and> last_streak_update_date ?st' = Some (env_today e)"
    using pos by (simp add: streak_new_state last_update_new_state)
  have c3: "last_streak_update_date st = Some (env_today e)
         \<longrightarrow> streak_count ?st' = streak_count st
             \<and> last_streak_update_date ?st' = last_streak_update_date st"
    by (simp add: streak_new_state last_update_new_state)
  have c4: "\<forall>e2 req2 fs2 r2 db2 fs2'.
           env_today e2 = env_today e
           \<and> post_answer e2 req2 db' fs2 = (Created r2, db2, fs2')
         \<longrightarrow> (\<exists>st2. state_row db2 = Some st2
               \<and> streak_count st2 = streak_count ?st'
               \<and> last_streak_update_date st2 = last_streak_update_date ?st')"
    using second by blast
  show ?thesis
    by (intro exI [of _ st] exI [of _ ?st'] conjI st st' c1 c2 c3 c4)
qed

theorem post_answer_streak_witness:
  "post_answer (ex_env ''u1'' 1000) (ex_request ''nidhi'' ''Favorite color?'') ex_db0 {}
     = (Created (ex_response 1 1), ex_db1, {''u1.webm''})
   \<and> env_today (ex_env ''u2'' 2000) = env_today (ex_env ''u1'' 1000)
   \<and> post_answer (ex_env ''u2'' 2000) (ex_request ''arpan'' '' Favorite color? '') ex_db1
       {''u1.webm''}
     = (Created (ex_response 5 6), ex_db2, {''u2.webm'', ''u1.webm''})
   \<and> (\<exists>st st' st2. state_row ex_db0 = Some st \<and> state_row ex_db1 = Some st'
        \<and> state_row ex_db2 = Some st2
        \<and> last_streak_update_date st \<noteq> Some (env_today (ex_env ''u1'' 1000))
        \<and> last_streak_update_date st = Some (env_yesterday (ex_env ''u1'' 1000))
        \<and> streak_count st' = streak_count st + 1
        \<and> last_streak_update_date st' = Some (env_today (ex_env ''u1'' 1000))
        \<and> streak_count st2 = streak_count st'
        \<and> last_streak_update_date st2 = last_streak_update_date st')"
proof -
  let ?e = "ex_env ''u1'' 1000"
  have same_day: "env_today (ex_env ''u2'' 2000) = env_today ?e"
    by (simp add: ex_env_def)
  from post_answer_streak [OF ex_first_submission] obtain st st' where
    st: "state_row ex_db0 = Some st" and st': "state_row ex_db1 = Some st'"
    and inc: "last_streak_update_date st \<noteq> Some (env_today ?e)
          \<and> last_streak_update_date st = Some (env_yesterday ?e)
         \<longrightarrow> streak_count st' = streak_count st + 1
             \<and> last_streak_update_date st' = Some (env_today ?e)"
    and again: "\<forall>e2 req2 fs2 r2 db2 fs2'.
           env_today e2 = env_today ?e
           \<and> post_answer e2 req2 ex_db1 fs2 = (Created r2, db2, fs2')
         \<longrightarrow> (\<exists>st2. state_row db2 = Some st2
               \<and> streak_count st2 = streak_count st'
               \<and> last_streak_update_date st2 = last_streak_update_date st')"
    by blast
  have before: "last_streak_update_date st \<noteq> Some (env_today ?e)"
    "last_streak_update_date st = Some (env_yesterday ?e)"
    using st by (auto simp: ex_defs)
  from again same_day ex_second_submission obtain st2 where
    "state_row ex_db2 = Some st2" "streak_count st2 = streak_count st'"
    "last_streak_update_date st2 = last_streak_update_date st'"
    by blast
  with st st' inc before same_day ex_first_submission ex_second_submission
  show ?thesis by blast
qed

section \<open>Points are always awarded\<close>

text \<open>
  C10. The points awarded by a successful submission are 1 or 5, so strictly positive;
  the stored \<open>love_points\<close> strictly grows; and whenever the stored
  \<open>last_streak_update_date\<close> is not today, the streak branch is taken: the date becomes
  today and \<open>streak_count\<close> is extended or restarted.
\<close>

theorem post_answer_points_positive:
  assumes "post_answer e req db fs = (Created r, db', fs')"
  shows "(pointAwarded r = 1 \<or> pointAwarded r = 5) \<and> 0 < pointAwarded r
     \<and> (\<exists>st st'. state_row db = Some st \<and> state_row db' = Some st'
          \<and> love_points st < love_points st'
          \<and> (last_streak_update_date st \<noteq> Some (env_today e)
              \<longrightarrow> last_streak_update_date st' = Some (env_today e)
                  \<and> streak_count st' =
                      (if last_streak_update_date st = Some (env_yesterday e)
                       then streak_count st + 1 else 1)))"
proof -
  from post_answer_state [OF assms] obtain source st where
    st: "state_row db = Some st"
    and st': "state_row db' = Some (new_state e source (pointAwarded r) st)"
    and p: "pointAwarded r = 1 \<or> pointAwarded r = 5"
    by blast
  from p have pos: "0 < pointAwarded r" by auto
  show ?thesis
    using st st' p pos
    by (simp add: love_points_new_state streak_new_state last_update_new_state)
qed

theorem post_answer_points_positive_witness:
  "post_answer (ex_env ''u1'' 1000) (ex_request ''nidhi'' ''Favorite color?'') ex_db0 {}
     = (Created (ex_response 1 1), ex_db1, {''u1.webm''})
   \<and> 0 < pointAwarded (ex_response 1 1)
   \<and> (\<exists>st st'. state_row ex_db0 = Some st \<and> state_row ex_db1 = Some st'
        \<and> love_points st < love_points st'
        \<and> last_streak_update_date st \<noteq> Some (env_today (ex_env ''u1'' 1000))
        \<and> last_streak_update_date st' = Some (env_today (ex_env ''u1'' 1000)))"
proof -
  let ?e = "ex_env ''u1'' 1000"
  from post_answer_points_positive [OF ex_first_submission] obtain st st' where
    pos: "0 < pointAwarded (ex_response 1 1)"
    and st: "state_row ex_db0 = Some st" and st': "state_row ex_db1 = Some st'"
    and more: "love_points st < love_points st'"
    and branch: "last_streak_update_date st \<noteq> Some (env_today ?e)
              \<longrightarrow> last_streak_update_date st' = Some (env_today ?e)
                  \<and> streak_count st' =
                      (if last_streak_update_date st = Some (env_yesterday ?e)
                       then streak_count st + 1 else 1)"
    by blast
  have "last_streak_update_date st \<noteq> Some (env_today ?e)"
    using st by (auto simp: ex_defs)
  with pos st st' more branch ex_first_submission show ?thesis by blast
qed

section \<open>Validation of the question text\<close>

text \<open>
  C3, evaluated on the code: a question text of three spaces passes the check of line
  214, which tests the text before it is stripped. The submission is answered with 201,
  a question with the empty text is inserted, an answer row and a file are written and
  the stored row is updated.
\<close>

theorem post_answer_blank_question_text:
  "post_answer (ex_env ''u1'' 1000) (ex_request ''nidhi'' ''   '') ex_db0 {}
     = (Created (ex_response 1 1), ex_blank_db, {''u1.webm''})"
  by (simp add: post_answer_eval ex_defs)

text \<open>A question text that is absent or empty before stripping is refused, with nothing written.\<close>

lemma post_answer_empty_question_text:
  assumes "form_questionText req = None \<or> form_questionText req = Some []"
  shows "\<exists>reason. post_answer e req db fs = (BadRequest reason, db, fs)"
  using assms
  by (auto simp: post_answer_def validate_def split: option.splits)

section \<open>Exceptions inside the transaction\<close>

lemma save_audio_cases:
  "save_audio e p fs = Inl (err, fs1) \<Longrightarrow> fs1 = fs \<or> fs1 = insert p fs"
  by (auto simp: save_audio_def split: option.splits step.splits if_splits)

lemma transaction_body_RaisedD:
  assumes "transaction_body e user t source filename db fs = Raised err filepath fs1"
  shows "(filepath = None \<and> fs1 = fs)
     \<or> (filepath = Some (unique_filename_of e filename)
         \<and> (fs1 = fs \<or> fs1 = insert (unique_filename_of e filename) fs))"
  using assms
  by (auto simp: transaction_body_def Let_def
      split: sum.splits prod.splits if_splits dest: save_audio_cases save_audio_InrD)

text \<open>Each statement that is reached and raises ends the block with an exception.\<close>

lemma transaction_body_fault:
  assumes "env_fault e = Some s"
    and "s = InsertQuestion \<longrightarrow> find (\<lambda>q. q_text q = t) (questions db) = None"
  shows "\<exists>err filepath fs1.
     transaction_body e user t source filename db fs = Raised err filepath fs1"
  using assms
  by (cases s)
     (auto simp: transaction_body_def process_question_def save_audio_def insert_answer_def
        update_state_def Let_def split: option.splits)

lemma transaction_body_no_row:
  assumes "state_row db = None"
  shows "\<exists>err filepath fs1.
     transaction_body e user t source filename db fs = Raised err filepath fs1"
  using assms
  by (auto simp: transaction_body_def process_question_def save_audio_def insert_answer_def
        update_state_def Let_def split: option.splits step.splits)

lemma ex_validate:
  "validate (ex_request ''arpan'' '' Favorite color? '')
     = Inr (''arpan'', ''Favorite color?'', ''manual'', ''answer.WebM'')"
  by (simp add: post_answer_eval ex_defs)

lemma ex_commit_fails:
  "transaction_body (ex_fault_env Commit False) ''arpan'' ''Favorite color?'' ''manual''
       ''answer.WebM'' ex_db1 {''u1.webm''}
     = Raised ''disk I/O error'' (Some ''u2.webm'') {''u2.webm'', ''u1.webm''}"
  by (simp add: post_answer_eval ex_defs)

text \<open>
  C4. When a statement of the transaction raises after a request was validated, the
  response is the 500 one with the text of the exception, and the database is the one
  before the submission. If the exception came before \<open>filepath\<close> was bound, the upload
  folder is as before. Otherwise \<open>filepath\<close> is the generated name; when \<open>os.remove\<close>
  does not fail the file is gone and every other file is as before; when it fails the
  response is the same and the folder is left as the failed block left it.
\<close>

theorem post_answer_exception:
  assumes "validate req = Inr (user, question_text, source, filename)"
    and "transaction_body e user question_text source filename db fs = Raised err filepath fs1"
  shows "\<exists>fs'. post_answer e req db fs
        = (ServerError (''Failed to process answer: '' @ err), db, fs')
     \<and> (filepath = None \<longrightarrow> fs' = fs)
     \<and> (\<forall>p. filepath = Some p \<longrightarrow>
          p = unique_filename_of e filename
          \<and> (env_remove_fails e \<longrightarrow> fs' = fs1 \<and> (fs1 = fs \<or> fs1 = insert p fs))
          \<and> (\<not> env_remove_fails e \<longrightarrow> p \<notin> fs' \<and> fs' = fs - {p}))"
proof -
  have pa: "post_answer e req db fs
      = (ServerError (''Failed to process answer: '' @ err), db, cleanup e filepath fs1)"
    using assms by (simp add: post_answer_def)
  from transaction_body_RaisedD [OF assms(2)] show ?thesis
    unfolding pa by (auto simp: cleanup_def)
qed

theorem post_answer_exception_witness:
  "validate (ex_request ''arpan'' '' Favorite color? '')
     = Inr (''arpan'', ''Favorite color?'', ''manual'', ''answer.WebM'')
   \<and> transaction_body (ex_fault_env Commit False) ''arpan'' ''Favorite color?'' ''manual''
       ''answer.WebM'' ex_db1 {''u1.webm''}
     = Raised ''disk I/O error'' (Some ''u2.webm'') {''u2.webm'', ''u1.webm''}
   \<and> \<not> env_remove_fails (ex_fault_env Commit False)
   \<and> post_answer (ex_fault_env Commit False) (ex_request ''arpan'' '' Favorite color? '') ex_db1
       {''u1.webm''}
     = (ServerError ''Failed to process answer: disk I/O error'', ex_db1, {''u1.webm''})"
proof -
  have ok: "\<not> env_remove_fails (ex_fault_env Commit False)"
    by (simp add: ex_defs)
  from post_answer_exception [OF ex_validate ex_commit_fails] obtain fs' where
    pa: "post_answer (ex_fault_env Commit False) (ex_request ''arpan'' '' Favorite color? '')
        ex_db1 {''u1.webm''}
      = (ServerError (''Failed to process answer: '' @ ''disk I/O error''), ex_db1, fs')"
    and del: "\<forall>p. Some ''u2.webm'' = Some p \<longrightarrow>
          p = unique_filename_of (ex_fault_env Commit False) ''answer.WebM''
          \<and> (env_remove_fails (ex_fault_env Commit False) \<longrightarrow>
                fs' = {''u2.webm'', ''u1.webm''}
                \<and> ({''u2.webm'', ''u1.webm''} = {''u1.webm''}
                    \<or> {''u2.webm'', ''u1.webm''} = insert p {''u1.webm''}))
          \<and> (\<not> env_remove_fails (ex_fault_env Commit False) \<longrightarrow>
                p \<notin> fs' \<and> fs' = {''u1.webm''} - {p})"
    by blast
  from del ok have "fs' = {''u1.webm''} - {''u2.webm''}" by blast
  then have "fs' = {''u1.webm''}" by simp
  with pa ok ex_validate ex_commit_fails show ?thesis by simp
qed

section \<open>Reading the state\<close>

text \<open>
  C5. \<open>get_state\<close> hands the database back as it got it. When the row exists and no
  statement raises, the response carries the stored points, streak and date; the two
  daily flags are the stored ones if the stored \<open>daily_progress_date\<close> is today, and 0
  (false) for both if it is not.
\<close>

theorem get_state_effective_flags:
  "snd (get_state today_str raises db) = db
   \<and> (\<forall>row. state_row db = Some row \<longrightarrow>
        (\<exists>resp. get_state today_str False db = (Ok resp, db)
           \<and> lovePoints resp = love_points row \<and> streak resp = streak_count row
           \<and> lastStreakUpdateDate resp = last_streak_update_date row
           \<and> (daily_progress_date row = Some today_str \<longrightarrow>
                dailyRandomAnswered resp = daily_random_answered row
                \<and> dailyManualAnswered resp = daily_manual_answered row)
           \<and> (daily_progress_date row \<noteq> Some today_str \<longrightarrow>
                dailyRandomAnswered resp = 0 \<and> dailyManualAnswered resp = 0)))"
  by (simp add: get_state_def split: option.splits)

theorem get_state_effective_flags_witness:
  "state_row ex_db1 = Some (ex_state 1 1 ''2024-05-02'' (Some ''2024-05-02'') 1)
   \<and> (\<exists>resp. get_state ''2024-05-02'' False ex_db1 = (Ok resp, ex_db1)
         \<and> dailyRandomAnswered resp = 0 \<and> dailyManualAnswered resp = 1)
   \<and> (\<exists>resp. get_state ''2024-05-03'' False ex_db1 = (Ok resp, ex_db1)
         \<and> dailyRandomAnswered resp = 0 \<and> dailyManualAnswered resp = 0)"
proof -
  let ?row = "ex_state 1 1 ''2024-05-02'' (Some ''2024-05-02'') 1"
  have row: "state_row ex_db1 = Some ?row"
    by (simp add: ex_db1_def)
  have same: "daily_progress_date ?row = Some ''2024-05-02''"
    and stale: "daily_progress_date ?row \<noteq> Some ''2024-05-03''"
    and flags: "daily_random_answered ?row = 0" "daily_manual_answered ?row = 1"
    by (simp_all add: ex_state_def)
  from get_state_effective_flags [of "''2024-05-02''" False ex_db1] row same flags
  have a: "\<exists>resp. get_state ''2024-05-02'' False ex_db1 = (Ok resp, ex_db1)
         \<and> dailyRandomAnswered resp = 0 \<and> dailyManualAnswered resp = 1"
    by fastforce
  from get_state_effective_flags [of "''2024-05-03''" False ex_db1] row stale
  have b: "\<exists>resp. get_state ''2024-05-03'' False ex_db1 = (Ok resp, ex_db1)
         \<and> dailyRandomAnswered resp = 0 \<and> dailyManualAnswered resp = 0"
    by fastforce
  from row a b show ?thesis by blast
qed

section \<open>The path check of the audio route\<close>

text \<open>\<open>startswith\<close> and \<open>contains\<close> are the prefix and the substring tests.\<close>

lemma startswith_iff: "startswith s p \<longleftrightarrow> (\<exists>post. s = p @ post)"
proof
  assume "startswith s p"
  then have "s = p @ drop (length p) s"
    by (metis append_take_drop_id startswith_def)
  then show "\<exists>post. s = p @ post" ..
next
  assume "\<exists>post. s = p @ post"
  then show "startswith s p" by (auto simp: startswith_def)
qed

lemma contains_iff: "contains s sub \<longleftrightarrow> (\<exists>pre post. s = pre @ sub @ post)"
proof (induction s)
  case Nil
  then show ?case by auto
next
  case (Cons c cs)
  show ?case
  proof
    assume "contains (c # cs) sub"
    then consider "startswith (c # cs) sub" | "contains cs sub" by auto
    then show "\<exists>pre post. c # cs = pre @ sub @ post"
    proof cases
      case 1
      then obtain post where "c # cs = sub @ post" by (auto simp: startswith_iff)
      then have "c # cs = [] @ sub @ post" by simp
      then show ?thesis by blast
    next
      case 2
      with Cons.IH obtain pre post where "cs = pre @ sub @ post" by blast
      then have "c # cs = (c # pre) @ sub @ post" by simp
      then show ?thesis by blast
    qed
  next
    assume "\<exists>pre post. c # cs = pre @ sub @ post"
    then obtain pre post where eq: "c # cs = pre @ sub @ post" by blast
    show "contains (c # cs) sub"
    proof (cases pre)
      case Nil
      with eq have "startswith (c # cs) sub" by (auto simp: startswith_iff)
      then show ?thesis by simp
    next
      case (Cons d pre')
      with eq have "cs = pre' @ sub @ post" by simp
      with Cons.IH have "contains cs sub" by blast
      then show ?thesis by simp
    qed
  qed
qed

text \<open>
  A filename that contains \<open>..\<close> or starts with \<open>/\<close> is answered with 400, whatever the
  call of \<open>send_from_directory\<close> would do: it is not made.
\<close>

lemma serve_audio_bad_request:
  assumes "contains filename ''..'' \<or> startswith filename ''/''"
  shows "serve_audio send filename = BadRequest ''Invalid filename''"
  using assms by (simp add: serve_audio_def)

text \<open>The 404 response is the handler's answer to \<open>FileNotFoundError\<close> alone.\<close>

lemma serve_audio_not_found_iff:
  "serve_audio send filename = NotFound ''Audio file not found'' \<longleftrightarrow>
     \<not> contains filename ''..'' \<and> \<not> startswith filename ''/''
     \<and> send filename = RaisesFileNotFoundError"
  by (auto simp: serve_audio_def split: send_result.splits)

text \<open>
  A filename that passes the check and names no file of the upload folder is answered
  with 500: \<open>send_from_directory\<close> raises \<open>NotFound\<close>, which the clause for
  \<open>FileNotFoundError\<close> does not catch and the clause for \<open>Exception\<close> does.
\<close>

lemma serve_audio_missing_file:
  assumes "\<not> contains filename ''..''" "\<not> startswith filename ''/''" "filename \<notin> fs"
  shows "serve_audio (send_from_directory fs) filename = ServerError ''Error serving audio file''"
  using assms by (simp add: serve_audio_def send_from_directory_def)

lemma serve_audio_existing_file:
  assumes "\<not> contains filename ''..''" "\<not> startswith filename ''/''" "filename \<in> fs"
  shows "serve_audio (send_from_directory fs) filename = Ok filename"
  using assms by (simp add: serve_audio_def send_from_directory_def)

text \<open>
  C9, evaluated on the code: the upload folder holds \<open>u1.webm\<close> and the request is for
  \<open>u9.webm\<close>, a well-formed filename that names no file. The answer is the 500
  response, not the 404 one.
\<close>

theorem serve_audio_missing_blob:
  "serve_audio (send_from_directory {''u1.webm''}) ''u9.webm''
     = ServerError ''Error serving audio file''"
  by (simp add: serve_audio_def send_from_directory_def startswith_def)

section \<open>The points never decrease\<close>

lemma post_answer_unchanged:
  "(\<exists>r. fst (post_answer e req db fs) = Created r) \<or> fst (snd (post_answer e req db fs)) = db"
  by (auto simp: post_answer_def split: sum.splits outcome.splits)

lemma get_state_unchanged: "snd (get_state today_str raises db) = db"
  by (simp add: get_state_def split: option.splits)

lemma handle_points:
  assumes "stored_points sys = Some p"
  shows "\<exists>p'. stored_points (handle op sys) = Some p' \<and> p \<le> p'"
proof (cases sys)
  case (Pair db fs)
  show ?thesis
  proof (cases op)
    case (PostAnswer e req)
    obtain resp db' fs' where pa: "post_answer e req db fs = (resp, db', fs')"
      by (cases "post_answer e req db fs") auto
    from post_answer_unchanged [of e req db fs] pa
    consider r where "resp = Created r" | "db' = db" by auto
    then show ?thesis
    proof cases
      case 1
      with pa have "post_answer e req db fs = (Created r, db', fs')" by simp
      from post_answer_state [OF this] obtain source st where
        "state_row db = Some st"
        "state_row db' = Some (new_state e source (pointAwarded r) st)"
        "pointAwarded r = 1 \<or> pointAwarded r = 5" by blast
      then show ?thesis
        using assms Pair PostAnswer pa
        by (auto simp: stored_points_def love_points_new_state)
    next
      case 2
      then show ?thesis
        using assms Pair PostAnswer pa by (auto simp: stored_points_def)
    qed
  next
    case (GetState today_str raises)
    then show ?thesis
      using assms Pair by (simp add: get_state_unchanged)
  qed (use assms Pair in simp_all)
qed

lemma run_points:
  assumes "stored_points sys = Some p"
  shows "\<exists>p'. stored_points (run ops sys) = Some p' \<and> p \<le> p'"
  using assms
proof (induction ops arbitrary: sys p)
  case Nil
  then show ?case by (simp add: run_def)
next
  case (Cons op ops)
  from handle_points [OF Cons.prems] obtain q where
    q: "stored_points (handle op sys) = Some q" "p \<le> q" by blast
  from Cons.IH [OF q(1)] obtain p' where
    "stored_points (run ops (handle op sys)) = Some p'" "q \<le> p'" by blast
  with q(2) show ?case by (auto simp: run_def)
qed

text \<open>
  C8. Once the row of \<open>CoupleState\<close> has been inserted by the initialisation, the stored
  \<open>love_points\<close> is 0; after any sequence of requests it is a non-negative integer, and
  any further sequence of requests leaves it unchanged or greater.
\<close>

theorem love_points_never_decrease:
  assumes "state_row db0 = None"
  shows "stored_points (init_couple_state yesterday_str d r m db0, fs) = Some 0
     \<and> (\<exists>p1 p2.
          stored_points (run ops1 (init_couple_state yesterday_str d r m db0, fs)) = Some p1
          \<and> stored_points (run ops2 (run ops1 (init_couple_state yesterday_str d r m db0, fs)))
              = Some p2
          \<and> 0 \<le> p1 \<and> p1 \<le> p2)"
proof -
  let ?init = "(init_couple_state yesterday_str d r m db0, fs)"
  have init: "stored_points ?init = Some 0"
    using assms by (simp add: stored_points_def init_couple_state_def)
  from run_points [OF init] obtain p1 where
    p1: "stored_points (run ops1 ?init) = Some p1" "0 \<le> p1" by blast
  from run_points [OF p1(1)] obtain p2 where
    "stored_points (run ops2 (run ops1 ?init)) = Some p2" "p1 \<le> p2" by blast
  with init p1 show ?thesis by blast
qed

theorem love_points_never_decrease_witness:
  "state_row ex_empty_db = None
   \<and> init_couple_state ''2024-05-01'' None 0 0 ex_empty_db = ex_db0
   \<and> run [PostAnswer (ex_env ''u1'' 1000) (ex_request ''nidhi'' ''Favorite color?'')]
        (ex_db0, {}) = (ex_db1, {''u1.webm''})
   \<and> run [GetState ''2024-05-02'' False,
           PostAnswer (ex_env ''u2'' 2000) (ex_request ''arpan'' '' Favorite color? '')]
        (ex_db1, {''u1.webm''}) = (ex_db2, {''u2.webm'', ''u1.webm''})
   \<and> (\<exists>p1 p2. stored_points (ex_db1, {''u1.webm''}) = Some p1
        \<and> stored_points (ex_db2, {''u2.webm'', ''u1.webm''}) = Some p2
        \<and> 0 \<le> p1 \<and> p1 \<le> p2)"
proof -
  let ?ops1 = "[PostAnswer (ex_env ''u1'' 1000) (ex_request ''nidhi'' ''Favorite color?'')]"
  let ?ops2 = "[GetState ''2024-05-02'' False,
           PostAnswer (ex_env ''u2'' 2000) (ex_request ''arpan'' '' Favorite color? '')]"
  have none: "state_row ex_empty_db = None"
    by (simp add: ex_empty_db_def)
  have init: "init_couple_state ''2024-05-01'' None 0 0 ex_empty_db = ex_db0"
    by (simp add: init_couple_state_def ex_empty_db_def ex_db0_def ex_state_def)
  have r1: "run ?ops1 (ex_db0, {}) = (ex_db1, {''u1.webm''})"
    by (simp add: run_def ex_first_submission)
  have r2: "run ?ops2 (ex_db1, {''u1.webm''}) = (ex_db2, {''u2.webm'', ''u1.webm''})"
    by (simp add: run_def ex_second_submission get_state_unchanged)
  from love_points_never_decrease [OF none, of "''2024-05-01''" None 0 0 "{}" ?ops1 ?ops2]
  have "\<exists>p1 p2. stored_points (ex_db1, {''u1.webm''}) = Some p1
        \<and> stored_points (ex_db2, {''u2.webm'', ''u1.webm''}) = Some p2
        \<and> 0 \<le> p1 \<and> p1 \<le> p2"
    unfolding init r1 r2 by blast
  with none init r1 r2 show ?thesis by blast
qed

section \<open>Dictionaries and the SQL queries\<close>

lemma update_memD:
  "(k', v') \<in> set (AList.update k v al) \<Longrightarrow> (k', v') \<in> set al \<or> (k' = k \<and> v' = v)"
  by (induction al) (auto split: if_splits)

lemma foldl_update_distinct:
  "distinct (map fst d) \<Longrightarrow>
   distinct (map fst (foldl (\<lambda>d x. AList.update (kf x) (vf x) d) d xs))"
  by (induction xs arbitrary: d) (simp_all add: distinct_update)

lemma foldl_update_dom:
  "fst ` set (foldl (\<lambda>d x. AList.update (kf x) (vf x) d) d xs) = fst ` set d \<union> kf ` set xs"
  by (induction xs arbitrary: d) (auto simp: dom_update)

lemma foldl_update_memD:
  "(k, v) \<in> set (foldl (\<lambda>d x. AList.update (kf x) (vf x) d) d xs) \<Longrightarrow>
   (k, v) \<in> set d \<or> (\<exists>x\<in>set xs. kf x = k \<and> vf x = v)"
proof (induction xs arbitrary: d)
  case Nil
  then show ?case by simp
next
  case (Cons x xs)
  from Cons.IH [of "AList.update (kf x) (vf x) d"] Cons.prems
  show ?case by (auto dest: update_memD)
qed

lemma select_answered_questions_iff:
  "(k, t) \<in> set (select_answered_questions db u) \<longleftrightarrow>
     (\<exists>q\<in>set (questions db). q_id q = k \<and> q_text q = t
        \<and> (\<exists>a\<in>set (answers db). question_id a = k \<and> user_id a = u))"
proof
  assume "(k, t) \<in> set (select_answered_questions db u)"
  then obtain q a where "q \<in> set (questions db)" "a \<in> set (answers db)"
    "q_id q = question_id a" "user_id a = u" "(k, t) = (q_id q, q_text q)"
    by (auto simp: select_answered_questions_def)
  then show "\<exists>q\<in>set (questions db). q_id q = k \<and> q_text q = t
        \<and> (\<exists>a\<in>set (answers db). question_id a = k \<and> user_id a = u)"
    by auto
next
  assume "\<exists>q\<in>set (questions db). q_id q = k \<and> q_text q = t
        \<and> (\<exists>a\<in>set (answers db). question_id a = k \<and> user_id a = u)"
  then obtain q a where q: "q \<in> set (questions db)" "q_id q = k" "q_text q = t"
    and a: "a \<in> set (answers db)" "question_id a = k" "user_id a = u"
    by blast
  from a q(2) have "a \<in> set (filter (\<lambda>a. q_id q = question_id a \<and> user_id a = u) (answers db))"
    by simp
  then have "(q_id q, q_text q) \<in> set (map (\<lambda>a. (q_id q, q_text q))
          (filter (\<lambda>a. q_id q = question_id a \<and> user_id a = u) (answers db)))"
    by (metis (no_types, lifting) image_eqI set_map)
  with q(1) have "(q_id q, q_text q) \<in> set (concat (map (\<lambda>q.
        map (\<lambda>a. (q_id q, q_text q))
          (filter (\<lambda>a. q_id q = question_id a \<and> user_id a = u) (answers db)))
        (questions db)))"
    unfolding set_concat by (metis (no_types, lifting) UN_I image_eqI set_map)
  then show "(k, t) \<in> set (select_answered_questions db u)"
    using q(2,3) by (simp only: select_answered_questions_def set_remdups)
qed

lemma dict_of_rows_distinct: "distinct (map fst (dict_of_rows rows))"
  using foldl_update_distinct [of "[]" fst snd rows]
  by (simp add: dict_of_rows_def)

lemma dict_of_rows_dom: "fst ` set (dict_of_rows rows) = fst ` set rows"
  using foldl_update_dom [of fst snd "[]" rows]
  by (simp add: dict_of_rows_def)

lemma dict_of_rows_memD: "(k, v) \<in> set (dict_of_rows rows) \<Longrightarrow> (k, v) \<in> set rows"
  using foldl_update_memD [of k v fst snd "[]" rows]
  by (auto simp: dict_of_rows_def)

lemma fold_max_Max: "fold max ts (t :: int) = Max (set (t # ts))"
  by (rule Max.set_eq_fold [symmetric])

lemma select_max_timestamp_Some:
  assumes "a \<in> set (answers db)" "question_id a = qid" "user_id a = u"
  shows "\<exists>t. select_max_timestamp db qid u = Some t
     \<and> (\<exists>b\<in>set (answers db). question_id b = qid \<and> user_id b = u \<and> timestamp b = t)
     \<and> (\<forall>b\<in>set (answers db). question_id b = qid \<and> user_id b = u \<longrightarrow> timestamp b \<le> t)"
proof -
  define rows where "rows = filter (\<lambda>a. question_id a = qid \<and> user_id a = u) (answers db)"
  define m where "m = Max (set (map timestamp rows))"
  have mem: "b \<in> set rows \<longleftrightarrow> b \<in> set (answers db) \<and> question_id b = qid \<and> user_id b = u"
    for b by (auto simp: rows_def)
  from assms have "a \<in> set rows" by (simp add: mem)
  then have ne: "map timestamp rows \<noteq> []" by auto
  then obtain t ts where ts: "map timestamp rows = t # ts" by (meson neq_Nil_conv)
  have "select_max_timestamp db qid u = Some (fold max ts t)"
    using ts by (simp add: select_max_timestamp_def rows_def [symmetric])
  also have "fold max ts t = m"
    unfolding m_def ts by (rule fold_max_Max)
  finally have sel: "select_max_timestamp db qid u = Some m" .
  have nonempty: "set (map timestamp rows) \<noteq> {}"
    using ne by (simp only: set_empty not_False_eq_True)
  have "m \<in> set (map timestamp rows)"
    unfolding m_def by (rule Max_in [OF finite_set nonempty])
  then obtain b where "b \<in> set rows" "timestamp b = m" by auto
  then have ex: "\<exists>b\<in>set (answers db). question_id b = qid \<and> user_id b = u \<and> timestamp b = m"
    using mem by blast
  have le: "timestamp b \<le> m" if "b \<in> set rows" for b
  proof -
    from that have "timestamp b \<in> set (map timestamp rows)" by simp
    then show ?thesis unfolding m_def by (rule Max_ge [OF finite_set])
  qed
  have "\<forall>b\<in>set (answers db). question_id b = qid \<and> user_id b = u \<longrightarrow> timestamp b \<le> m"
    using le mem by blast
  with sel ex show ?thesis by blast
qed

lemma select_max_timestamp_None:
  assumes "\<forall>a\<in>set (answers db). \<not> (question_id a = qid \<and> user_id a = u)"
  shows "select_max_timestamp db qid u = None"
proof -
  from assms have "filter (\<lambda>a. question_id a = qid \<and> user_id a = u) (answers db) = []"
    by (auto simp: filter_empty_conv)
  then show ?thesis by (simp add: select_max_timestamp_def)
qed

lemma set_select_answered_ids:
  "set (select_answered_ids db u ids) =
     {k. k \<in> set ids \<and> (\<exists>a\<in>set (answers db). question_id a = k \<and> user_id a = u)}"
  by (auto simp: select_answered_ids_def)

lemma sort_key_neg_descending:
  "sorted_wrt (\<lambda>x y. f y \<le> f x) (sort_key (\<lambda>x. - f x) xs)" for f :: "'a \<Rightarrow> int"
proof -
  have "sorted (map (\<lambda>x. - f x) (sort_key (\<lambda>x. - f x) xs))"
    by (rule sorted_sort_key)
  then show ?thesis by (simp add: sorted_map)
qed

lemma pending_entry_fields:
  "p_id (pending_entry db other (k, t)) = k"
  "p_text (pending_entry db other (k, t)) = t"
  "asked_by (pending_entry db other (k, t)) = other"
  by (simp_all add: pending_entry_def)

lemma pending_entry_timestamp:
  assumes "select_max_timestamp db k other = Some t"
  shows "p_timestamp (pending_entry db other (k, txt)) = t"
  using assms by (simp add: pending_entry_def)

section \<open>The pending questions of a user\<close>

lemma ex_get_pending: "get_pending_questions ''arpan'' False ex_hist_db = Ok ex_pending"
  by (simp add: get_pending_questions_def other_user_of_def dict_of_rows_def
      select_answered_questions_def select_answered_ids_def select_max_timestamp_def
      pending_entry_def ex_hist_db_def ex_pending_def ex_row_def Let_def)

lemma get_pending_questions_other:
  "(user \<notin> {''nidhi'', ''arpan''} \<longrightarrow>
      get_pending_questions user raises db = BadRequest ''Invalid user ID'')
   \<and> (user \<in> {''nidhi'', ''arpan''} \<longrightarrow>
      (\<exists>pl. get_pending_questions user False db = Ok pl
         \<and> distinct (map p_id pl)
         \<and> p_id ` set pl =
             {k. (\<exists>q\<in>set (questions db). q_id q = k)
                 \<and> (\<exists>a\<in>set (answers db). question_id a = k \<and> user_id a = other_user_of user)
                 \<and> \<not> (\<exists>a\<in>set (answers db). question_id a = k \<and> user_id a = user)}
         \<and> (\<forall>p\<in>set pl.
               asked_by p = other_user_of user
               \<and> (\<exists>q\<in>set (questions db). q_id q = p_id p \<and> q_text q = p_text p)
               \<and> (\<exists>a\<in>set (answers db). question_id a = p_id p
                     \<and> user_id a = other_user_of user \<and> timestamp a = p_timestamp p)
               \<and> (\<forall>a\<in>set (answers db). question_id a = p_id p
                     \<and> user_id a = other_user_of user \<longrightarrow> timestamp a \<le> p_timestamp p))
         \<and> sorted_wrt (\<lambda>p p'. p_timestamp p' \<le> p_timestamp p) pl))"
proof (intro conjI impI)
  assume "user \<notin> {''nidhi'', ''arpan''}"
  then show "get_pending_questions user raises db = BadRequest ''Invalid user ID''"
    by (simp add: get_pending_questions_def)
next
  assume valid: "user \<in> {''nidhi'', ''arpan''}"
  define other where "other = other_user_of user"
  define dict where "dict = dict_of_rows (select_answered_questions db other)"
  define cur where "cur = select_answered_ids db user (map fst dict)"
  define pending where
    "pending = map (pending_entry db other) (filter (\<lambda>(qid, text). qid \<notin> set cur) dict)"
  define pl where "pl = sort_key (\<lambda>p. - p_timestamp p) pending"
  have res: "get_pending_questions user False db = Ok pl"
  proof (cases "dict = []")
    case True
    then have "pl = []" by (simp add: pl_def pending_def)
    with True valid show ?thesis
      by (simp add: get_pending_questions_def Let_def dict_def other_def)
  next
    case False
    with valid show ?thesis
      by (simp add: get_pending_questions_def Let_def dict_def [symmetric] other_def [symmetric]
          cur_def [symmetric] pending_def [symmetric] pl_def)
  qed
  have dict_distinct: "distinct (map fst dict)"
    unfolding dict_def by (rule dict_of_rows_distinct)
  have dict_mem: "\<exists>q\<in>set (questions db). q_id q = k \<and> q_text q = t
        \<and> (\<exists>a\<in>set (answers db). question_id a = k \<and> user_id a = other)"
    if "(k, t) \<in> set dict" for k t
    using dict_of_rows_memD [of k t] that select_answered_questions_iff [of k t db other]
    unfolding dict_def by blast
  have dict_dom: "k \<in> fst ` set dict \<longleftrightarrow>
      (\<exists>q\<in>set (questions db). q_id q = k)
      \<and> (\<exists>a\<in>set (answers db). question_id a = k \<and> user_id a = other)" for k
  proof -
    have "k \<in> fst ` set dict \<longleftrightarrow> (\<exists>t. (k, t) \<in> set (select_answered_questions db other))"
      unfolding dict_def dict_of_rows_dom by force
    then show ?thesis
      unfolding select_answered_questions_iff by blast
  qed
  have cur: "k \<in> set cur \<longleftrightarrow>
      k \<in> fst ` set dict \<and> (\<exists>a\<in>set (answers db). question_id a = k \<and> user_id a = user)" for k
    by (auto simp: cur_def set_select_answered_ids)
  have ids: "map p_id pending = map fst (filter (\<lambda>(qid, text). qid \<notin> set cur) dict)"
    by (simp add: pending_def comp_def case_prod_beta pending_entry_def)
  have distinct_pending: "distinct (map p_id pending)"
    unfolding ids using dict_distinct by (rule distinct_map_filter)
  have set_pl: "set pl = set pending" by (simp add: pl_def)
  have c1: "distinct (map p_id pl)"
    using distinct_pending by (simp add: pl_def distinct_map)
  have c2: "p_id ` set pl =
      {k. (\<exists>q\<in>set (questions db). q_id q = k)
          \<and> (\<exists>a\<in>set (answers db). question_id a = k \<and> user_id a = other)
          \<and> \<not> (\<exists>a\<in>set (answers db). question_id a = k \<and> user_id a = user)}"
  proof -
    have "p_id ` set pl = set (map p_id pending)" by (simp add: set_pl)
    also have "\<dots> = {k. k \<in> fst ` set dict \<and> k \<notin> set cur}"
      unfolding ids by force
    also have "\<dots> = {k. (\<exists>q\<in>set (questions db). q_id q = k)
          \<and> (\<exists>a\<in>set (answers db). question_id a = k \<and> user_id a = other)
          \<and> \<not> (\<exists>a\<in>set (answers db). question_id a = k \<and> user_id a = user)}"
      unfolding cur dict_dom by blast
    finally show ?thesis .
  qed
  have c3: "asked_by p = other
      \<and> (\<exists>q\<in>set (questions db). q_id q = p_id p \<and> q_text q = p_text p)
      \<and> (\<exists>a\<in>set (answers db). question_id a = p_id p
            \<and> user_id a = other \<and> timestamp a = p_timestamp p)
      \<and> (\<forall>a\<in>set (answers db). question_id a = p_id p
            \<and> user_id a = other \<longrightarrow> timestamp a \<le> p_timestamp p)"
    if "p \<in> set pl" for p
  proof -
    from that obtain k t where kt: "(k, t) \<in> set dict" and p: "p = pending_entry db other (k, t)"
      unfolding set_pl pending_def by auto
    from dict_mem [OF kt] obtain q a where
      q: "q \<in> set (questions db)" "q_id q = k" "q_text q = t"
      and a: "a \<in> set (answers db)" "question_id a = k" "user_id a = other"
      by blast
    from select_max_timestamp_Some [OF a] obtain m where
      m: "select_max_timestamp db k other = Some m"
      and mex: "\<exists>b\<in>set (answers db). question_id b = k \<and> user_id b = other \<and> timestamp b = m"
      and mle: "\<forall>b\<in>set (answers db). question_id b = k \<and> user_id b = other \<longrightarrow> timestamp b \<le> m"
      by blast
    have "p_timestamp p = m" unfolding p by (rule pending_entry_timestamp [OF m])
    with q mex mle show ?thesis
      unfolding p pending_entry_fields by blast
  qed
  have c4: "sorted_wrt (\<lambda>p p'. p_timestamp p' \<le> p_timestamp p) pl"
    unfolding pl_def by (rule sort_key_neg_descending)
  from res c1 c2 c3 c4
  show "\<exists>pl. get_pending_questions user False db = Ok pl
         \<and> distinct (map p_id pl)
         \<and> p_id ` set pl =
             {k. (\<exists>q\<in>set (questions db). q_id q = k)
                 \<and> (\<exists>a\<in>set (answers db). question_id a = k \<and> user_id a = other_user_of user)
                 \<and> \<not> (\<exists>a\<in>set (answers db). question_id a = k \<and> user_id a = user)}
         \<and> (\<forall>p\<in>set pl.
               asked_by p = other_user_of user
               \<and> (\<exists>q\<in>set (questions db). q_id q = p_id p \<and> q_text q = p_text p)
               \<and> (\<exists>a\<in>set (answers db). question_id a = p_id p
                     \<and> user_id a = other_user_of user \<and> timestamp a = p_timestamp p)
               \<and> (\<forall>a\<in>set (answers db). question_id a = p_id p
                     \<and> user_id a = other_user_of user \<longrightarrow> timestamp a \<le> p_timestamp p))
         \<and> sorted_wrt (\<lambda>p p'. p_timestamp p' \<le> p_timestamp p) pl"
    unfolding other_def by blast
qed

lemma ex_get_pending_nidhi:
  "get_pending_questions ''nidhi'' False ex_pending_db = Ok ex_pending_nidhi"
  by (simp add: get_pending_questions_def other_user_of_def dict_of_rows_def
      select_answered_questions_def select_answered_ids_def select_max_timestamp_def
      pending_entry_def ex_pending_db_def ex_hist_db_def ex_pending_nidhi_def ex_row_def Let_def)

text \<open>
  C7. For an identity other than the two fixed ones the answer is the 400 response,
  whatever the database holds and whether or not a query would fail (none is run). For
  each of the two identities, with the other one as the counterpart, the list holds,
  once each, exactly the questions that have an answer of the counterpart and none of
  the requesting user; each entry names the counterpart, carries the text of the
  question and the greatest timestamp among the counterpart's answers to it; the list
  is in descending order of that timestamp.
\<close>

theorem get_pending_questions_exact:
  "(user \<notin> {''nidhi'', ''arpan''} \<longrightarrow>
      get_pending_questions user raises db = BadRequest ''Invalid user ID'')
   \<and> ((user = ''nidhi'' \<and> counterpart = ''arpan'')
        \<or> (user = ''arpan'' \<and> counterpart = ''nidhi'') \<longrightarrow>
      (\<exists>pl. get_pending_questions user False db = Ok pl
         \<and> distinct (map p_id pl)
         \<and> p_id ` set pl =
             {k. (\<exists>q\<in>set (questions db). q_id q = k)
                 \<and> (\<exists>a\<in>set (answers db). question_id a = k \<and> user_id a = counterpart)
                 \<and> \<not> (\<exists>a\<in>set (answers db). question_id a = k \<and> user_id a = user)}
         \<and> (\<forall>p\<in>set pl.
               asked_by p = counterpart
               \<and> (\<exists>q\<in>set (questions db). q_id q = p_id p \<and> q_text q = p_text p)
               \<and> (\<exists>a\<in>set (answers db). question_id a = p_id p
                     \<and> user_id a = counterpart \<and> timestamp a = p_timestamp p)
               \<and> (\<forall>a\<in>set (answers db). question_id a = p_id p
                     \<and> user_id a = counterpart \<longrightarrow> timestamp a \<le> p_timestamp p))
         \<and> sorted_wrt (\<lambda>p p'. p_timestamp p' \<le> p_timestamp p) pl))"
proof (intro conjI impI)
  assume "user \<notin> {''nidhi'', ''arpan''}"
  with get_pending_questions_other [of user raises db, THEN conjunct1]
  show "get_pending_questions user raises db = BadRequest ''Invalid user ID''"
    by (rule mp)
next
  assume "(user = ''nidhi'' \<and> counterpart = ''arpan'')
        \<or> (user = ''arpan'' \<and> counterpart = ''nidhi'')"
  then have valid: "user \<in> {''nidhi'', ''arpan''}"
    and c: "other_user_of user = counterpart"
    by (auto simp: other_user_of_def)
  from get_pending_questions_other [of user raises db, THEN conjunct2, THEN mp, OF valid]
  show "\<exists>pl. get_pending_questions user False db = Ok pl
         \<and> distinct (map p_id pl)
         \<and> p_id ` set pl =
             {k. (\<exists>q\<in>set (questions db). q_id q = k)
                 \<and> (\<exists>a\<in>set (answers db). question_id a = k \<and> user_id a = counterpart)
                 \<and> \<not> (\<exists>a\<in>set (answers db). question_id a = k \<and> user_id a = user)}
         \<and> (\<forall>p\<in>set pl.
               asked_by p = counterpart
               \<and> (\<exists>q\<in>set (questions db). q_id q = p_id p \<and> q_text q = p_text p)
               \<and> (\<exists>a\<in>set (answers db). question_id a = p_id p
                     \<and> user_id a = counterpart \<and> timestamp a = p_timestamp p)
               \<and> (\<forall>a\<in>set (answers db). question_id a = p_id p
                     \<and> user_id a = counterpart \<longrightarrow> timestamp a \<le> p_timestamp p))
         \<and> sorted_wrt (\<lambda>p p'. p_timestamp p' \<le> p_timestamp p) pl"
    unfolding c .
qed

theorem get_pending_questions_exact_witness:
  "''charlie'' \<notin> {''nidhi'', ''arpan''}
   \<and> get_pending_questions ''charlie'' True ex_hist_db = BadRequest ''Invalid user ID''
   \<and> get_pending_questions ''arpan'' False ex_hist_db = Ok ex_pending
   \<and> ex_pending ! 0 \<in> set ex_pending
   \<and> asked_by (ex_pending ! 0) = ''nidhi''
   \<and> ex_row 2 ''nidhi'' ''u3.webm'' 1500 \<in> set (answers ex_hist_db)
   \<and> timestamp (ex_row 2 ''nidhi'' ''u3.webm'' 1500) \<le> p_timestamp (ex_pending ! 0)
   \<and> get_pending_questions ''nidhi'' False ex_pending_db = Ok ex_pending_nidhi
   \<and> ex_pending_nidhi ! 0 \<in> set ex_pending_nidhi
   \<and> asked_by (ex_pending_nidhi ! 0) = ''arpan''
   \<and> p_id ` set ex_pending_nidhi = {3}"
proof -
  let ?row = "ex_row 2 ''nidhi'' ''u3.webm'' 1500"
  have invalid: "''charlie'' \<notin> {''nidhi'', ''arpan''}" by simp
  note bad = get_pending_questions_exact [of "''charlie''" True ex_hist_db,
      THEN conjunct1, THEN mp, OF invalid]
  have pair_a: "(''arpan'' = ''nidhi'' \<and> ''nidhi'' = ''arpan'')
      \<or> (''arpan'' = ''arpan'' \<and> ''nidhi'' = ''nidhi'')" by simp
  have pair_n: "(''nidhi'' = ''nidhi'' \<and> ''arpan'' = ''arpan'')
      \<or> (''nidhi'' = ''arpan'' \<and> ''arpan'' = ''nidhi'')" by simp
  have id0: "p_id (ex_pending ! 0) = 2"
    by (simp add: ex_pending_def)
  have row: "?row \<in> set (answers ex_hist_db)" "question_id ?row = 2" "user_id ?row = ''nidhi''"
    by (simp_all add: ex_hist_db_def ex_row_def)
  from get_pending_questions_exact [where user = "''arpan''" and counterpart = "''nidhi''"
      and db = ex_hist_db,
      THEN conjunct2, THEN mp, OF pair_a]
  have arpan: "ex_pending ! 0 \<in> set ex_pending \<and> asked_by (ex_pending ! 0) = ''nidhi''
      \<and> timestamp ?row \<le> p_timestamp (ex_pending ! 0)"
  proof (elim exE, goal_cases)
    case (1 pl)
    note pl = 1 [THEN conjunct1]
    note each = 1 [THEN conjunct2, THEN conjunct2, THEN conjunct2, THEN conjunct1]
    from pl have eq: "pl = ex_pending" by (simp add: ex_get_pending)
    have first: "ex_pending ! 0 \<in> set pl"
      unfolding eq by (simp add: ex_pending_def)
    note asked = each [THEN bspec, OF first, THEN conjunct1]
    note newest = each [THEN bspec, OF first, THEN conjunct2, THEN conjunct2, THEN conjunct2,
        THEN bspec, OF row(1)]
    from newest row id0 have "timestamp ?row \<le> p_timestamp (ex_pending ! 0)" by simp
    with first asked show ?case unfolding eq by (intro conjI)
  qed
  from get_pending_questions_exact [where user = "''nidhi''" and counterpart = "''arpan''"
      and db = ex_pending_db,
      THEN conjunct2, THEN mp, OF pair_n]
  have nidhi: "ex_pending_nidhi ! 0 \<in> set ex_pending_nidhi
      \<and> asked_by (ex_pending_nidhi ! 0) = ''arpan''"
  proof (elim exE, goal_cases)
    case (1 pl)
    note pl = 1 [THEN conjunct1]
    note each = 1 [THEN conjunct2, THEN conjunct2, THEN conjunct2, THEN conjunct1]
    from pl have eq: "pl = ex_pending_nidhi" by (simp add: ex_get_pending_nidhi)
    have first: "ex_pending_nidhi ! 0 \<in> set pl"
      unfolding eq by (simp add: ex_pending_nidhi_def)
    note asked = each [THEN bspec, OF first, THEN conjunct1]
    with first show ?case unfolding eq by (intro conjI)
  qed
  have ids: "p_id ` set ex_pending_nidhi = {3}"
    by (simp add: ex_pending_nidhi_def)
  from invalid bad ex_get_pending arpan row(1) ex_get_pending_nidhi nidhi ids
  show ?thesis by (intro conjI) simp_all
qed

section \<open>The history\<close>

lemma latest_for_other:
  assumes "latest_for seen k u r" "question_id a \<noteq> k \<or> user_id a \<noteq> u"
  shows "latest_for (insert a seen) k u r"
  using assms unfolding latest_for_def by blast

lemma latest_for_first:
  assumes "latest_for seen k u None" "question_id a = k" "user_id a = u"
  shows "latest_for (insert a seen) k u (Some (entry_of a))"
  using assms unfolding latest_for_def by (auto simp: entry_of_def)

lemma latest_for_newer:
  assumes "latest_for seen k u (Some old)" "question_id a = k" "user_id a = u"
    "timestamp a > h_timestamp old"
  shows "latest_for (insert a seen) k u (Some (entry_of a))"
  using assms unfolding latest_for_def by (fastforce simp: entry_of_def)

lemma latest_for_older:
  assumes "latest_for seen k u (Some old)" "question_id a = k" "user_id a = u"
    "\<not> timestamp a > h_timestamp old"
  shows "latest_for (insert a seen) k u (Some old)"
  using assms unfolding latest_for_def by auto

lemma kept_latest_other_question:
  assumes "kept_latest seen k kept" "question_id a \<noteq> k"
  shows "kept_latest (insert a seen) k kept"
  using assms unfolding kept_latest_def by (blast intro: latest_for_other)

lemma kept_latest_update:
  assumes "kept_latest seen k kept" "question_id a = k"
    and "\<And>old. map_of kept (user_id a) = Some old \<Longrightarrow> timestamp a > h_timestamp old"
  shows "kept_latest (insert a seen) k (AList.update (user_id a) (entry_of a) kept)"
proof -
  from assms(1) have d: "distinct (map fst (AList.update (user_id a) (entry_of a) kept))"
    by (simp add: kept_latest_def distinct_update)
  have "latest_for (insert a seen) k u (map_of (AList.update (user_id a) (entry_of a) kept) u)"
    for u
  proof (cases "u = user_id a")
    case True
    from assms(1) have l: "latest_for seen k (user_id a) (map_of kept (user_id a))"
      unfolding kept_latest_def by blast
    have "latest_for (insert a seen) k (user_id a) (Some (entry_of a))"
    proof (cases "map_of kept (user_id a)")
      case None
      with l assms(2) show ?thesis by (simp add: latest_for_first)
    next
      case (Some old)
      with l assms(2) assms(3) [OF Some] show ?thesis by (simp add: latest_for_newer)
    qed
    with True show ?thesis by (simp add: update_conv')
  next
    case False
    from assms(1) have "latest_for seen k u (map_of kept u)"
      unfolding kept_latest_def by blast
    with False have "latest_for (insert a seen) k u (map_of kept u)"
      by (simp add: latest_for_other)
    with False show ?thesis by (simp add: update_conv')
  qed
  with d show ?thesis unfolding kept_latest_def by blast
qed

lemma kept_latest_older:
  assumes "kept_latest seen k kept" "question_id a = k" "map_of kept (user_id a) = Some old"
    "\<not> timestamp a > h_timestamp old"
  shows "kept_latest (insert a seen) k kept"
proof -
  have "latest_for (insert a seen) k u (map_of kept u)" for u
  proof (cases "u = user_id a")
    case True
    from assms(1) have "latest_for seen k (user_id a) (map_of kept (user_id a))"
      unfolding kept_latest_def by blast
    with True assms(2,3,4) show ?thesis by (simp add: latest_for_older)
  next
    case False
    from assms(1) have "latest_for seen k u (map_of kept u)"
      unfolding kept_latest_def by blast
    with False show ?thesis by (simp add: latest_for_other)
  qed
  with assms(1) show ?thesis unfolding kept_latest_def by blast
qed

lemma add_answer_unknown:
  "map_of qs (question_id a) = None \<Longrightarrow> add_answer a qs = qs"
  by (simp add: add_answer_def)

lemma add_answer_cases:
  assumes "map_of qs (question_id a) = Some q"
  shows "add_answer a qs =
     (if (\<forall>old. map_of (h_answers q) (user_id a) = Some old \<longrightarrow> timestamp a > h_timestamp old)
      then AList.update (question_id a)
             (q\<lparr>h_answers := AList.update (user_id a) (entry_of a) (h_answers q)\<rparr>) qs
      else qs)"
  using assms by (auto simp: add_answer_def Let_def entry_of_def split: option.splits)

lemma history_inv_add_answer:
  assumes "history_inv seen d"
  shows "history_inv (insert a seen) (add_answer a d)"
proof (cases "map_of d (question_id a)")
  case None
  have "h_id q = k \<and> kept_latest (insert a seen) k (h_answers q)" if "map_of d k = Some q" for k q
  proof -
    from that None have "question_id a \<noteq> k" by auto
    with assms that show ?thesis
      unfolding history_inv_def by (blast intro: kept_latest_other_question)
  qed
  with assms show ?thesis
    unfolding history_inv_def add_answer_unknown [OF None] by blast
next
  case (Some q0)
  from assms Some have q0: "h_id q0 = question_id a" "kept_latest seen (question_id a) (h_answers q0)"
    unfolding history_inv_def by blast+
  from assms have dist: "distinct (map fst d)" unfolding history_inv_def by blast
  show ?thesis
  proof (cases "\<forall>old. map_of (h_answers q0) (user_id a) = Some old \<longrightarrow> timestamp a > h_timestamp old")
    case True
    let ?q1 = "q0\<lparr>h_answers := AList.update (user_id a) (entry_of a) (h_answers q0)\<rparr>"
    have eq: "add_answer a d = AList.update (question_id a) ?q1 d"
      using True by (simp add: add_answer_cases [OF Some])
    have k1: "kept_latest (insert a seen) (question_id a) (h_answers ?q1)"
      using kept_latest_update [OF q0(2) refl] True by simp
    have "h_id q = k \<and> kept_latest (insert a seen) k (h_answers q)"
      if "map_of (AList.update (question_id a) ?q1 d) k = Some q" for k q
    proof (cases "k = question_id a")
      case True
      with that have "q = ?q1" by (simp add: update_conv')
      with True q0(1) k1 show ?thesis by simp
    next
      case False
      with that have "map_of d k = Some q" by (simp add: update_conv')
      with assms False show ?thesis
        unfolding history_inv_def by (metis kept_latest_other_question)
    qed
    with dist show ?thesis
      unfolding history_inv_def eq by (simp add: distinct_update)
  next
    case False
    then obtain old where old: "map_of (h_answers q0) (user_id a) = Some old"
      "\<not> timestamp a > h_timestamp old" by blast
    have eq: "add_answer a d = d"
      unfolding add_answer_cases [OF Some] using False by (simp only: if_False)
    have "h_id q = k \<and> kept_latest (insert a seen) k (h_answers q)" if "map_of d k = Some q" for k q
    proof (cases "k = question_id a")
      case True
      with that Some have "q = q0" by simp
      with True q0 old show ?thesis
        by (simp add: kept_latest_older [OF q0(2) refl old])
    next
      case False
      with assms that show ?thesis
        unfolding history_inv_def by (metis kept_latest_other_question)
    qed
    with dist show ?thesis unfolding history_inv_def eq by blast
  qed
qed

lemma history_inv_fold:
  assumes "history_inv seen d"
  shows "history_inv (seen \<union> set rows) (fold add_answer rows d)"
  using assms
proof (induction rows arbitrary: seen d)
  case Nil
  then show ?case by simp
next
  case (Cons a rows)
  from Cons.IH [OF history_inv_add_answer [OF Cons.prems, of a]]
  show ?case by simp
qed

text \<open>The loop changes neither the keys nor the id and text of a question.\<close>

lemma update_same_label:
  assumes "map_of d k = Some q" "g q' = g q"
  shows "map (\<lambda>(k, q). (k, g q)) (AList.update k q' d) = map (\<lambda>(k, q). (k, g q)) d"
  using assms by (induction d) (auto split: if_splits)

lemma add_answer_labels:
  "map (\<lambda>(k, q). (k, h_text q)) (add_answer a d) = map (\<lambda>(k, q). (k, h_text q)) d"
proof (cases "map_of d (question_id a)")
  case None
  then show ?thesis by (simp add: add_answer_unknown)
next
  case (Some q0)
  show ?thesis
    unfolding add_answer_cases [OF Some]
    by (simp add: update_same_label [OF Some])
qed

lemma fold_add_answer_labels:
  "map (\<lambda>(k, q). (k, h_text q)) (fold add_answer rows d) = map (\<lambda>(k, q). (k, h_text q)) d"
  by (induction rows arbitrary: d) (simp_all add: add_answer_labels)

lemma questions_dict_distinct: "distinct (map fst (questions_dict rows))"
  unfolding questions_dict_def by (rule foldl_update_distinct) simp

lemma questions_dict_dom: "fst ` set (questions_dict rows) = q_id ` set rows"
  unfolding questions_dict_def foldl_update_dom by simp

lemma questions_dict_memD:
  assumes "(k, q) \<in> set (questions_dict rows)"
  shows "\<exists>row\<in>set rows. q_id row = k
     \<and> q = \<lparr>h_id = q_id row, h_text = q_text row, h_answers = []\<rparr>"
  using foldl_update_memD [OF assms [unfolded questions_dict_def]] by auto

lemma history_inv_questions_dict: "history_inv {} (questions_dict rows)"
proof -
  have "h_id q = k \<and> kept_latest {} k (h_answers q)"
    if "map_of (questions_dict rows) k = Some q" for k q
  proof -
    from that have "(k, q) \<in> set (questions_dict rows)" by (rule map_of_SomeD)
    from questions_dict_memD [OF this] show ?thesis
      by (auto simp: kept_latest_def latest_for_def)
  qed
  then show ?thesis
    unfolding history_inv_def using questions_dict_distinct by blast
qed

lemma history_inv_collect_answers: "history_inv (set (answers db)) (collect_answers db)"
  using history_inv_fold [OF history_inv_questions_dict,
      of "select_answers_desc db" "select_questions_desc db"]
  by (simp add: collect_answers_def select_answers_desc_def)

lemma collect_answers_labels:
  "map (\<lambda>(k, q). (k, h_text q)) (collect_answers db)
     = map (\<lambda>(k, q). (k, h_text q)) (questions_dict (select_questions_desc db))"
  unfolding collect_answers_def by (rule fold_add_answer_labels)

lemma collect_answers_keys:
  "map fst (collect_answers db) = map fst (questions_dict (select_questions_desc db))"
proof -
  have "map fst d = map fst (map (\<lambda>(k, q). (k, h_text q)) d)"
    for d :: "(int \<times> history_question) list"
    by (simp add: comp_def case_prod_beta)
  then show ?thesis by (metis collect_answers_labels)
qed

lemma collect_answers_entry:
  assumes "(k, hq) \<in> set (collect_answers db)"
  shows "h_id hq = k" and "kept_latest (set (answers db)) k (h_answers hq)"
    and "\<exists>q\<in>set (questions db). q_id q = k \<and> q_text q = h_text hq"
proof -
  from history_inv_collect_answers [of db] have
    dist: "distinct (map fst (collect_answers db))"
    and inv: "\<And>k q. map_of (collect_answers db) k = Some q \<Longrightarrow>
        h_id q = k \<and> kept_latest (set (answers db)) k (h_answers q)"
    unfolding history_inv_def by blast+
  from dist assms have "map_of (collect_answers db) k = Some hq" by simp
  from inv [OF this] show "h_id hq = k" "kept_latest (set (answers db)) k (h_answers hq)"
    by blast+
  from assms have "(k, h_text hq) \<in> set (map (\<lambda>(k, q). (k, h_text q)) (collect_answers db))"
    by force
  then have "(k, h_text hq)
      \<in> set (map (\<lambda>(k, q). (k, h_text q)) (questions_dict (select_questions_desc db)))"
    unfolding collect_answers_labels .
  then obtain q0 where q0: "(k, q0) \<in> set (questions_dict (select_questions_desc db))"
    and same_text: "h_text q0 = h_text hq" by auto
  from questions_dict_memD [OF q0] obtain row where
    row: "row \<in> set (select_questions_desc db)" "q_id row = k"
    and "q0 = \<lparr>h_id = q_id row, h_text = q_text row, h_answers = []\<rparr>"
    by blast
  with same_text have "q_text row = h_text hq" by simp
  with row show "\<exists>q\<in>set (questions db). q_id q = k \<and> q_text q = h_text hq"
    by (auto simp: select_questions_desc_def)
qed

lemma collect_answers_ids: "map h_id (map snd (collect_answers db)) = map fst (collect_answers db)"
  using collect_answers_entry(1) [of _ _ db] by (auto simp: comp_def)

lemma latest_timestamp_Nil: "h_answers q = [] \<Longrightarrow> latest_timestamp q = 0"
  by (simp add: latest_timestamp_def)

lemma latest_timestamp_Max:
  assumes "h_answers q \<noteq> []"
  shows "latest_timestamp q = Max (set (map (\<lambda>(u, a). h_timestamp a) (h_answers q)))"
proof -
  from assms obtain t ts where ts: "map (\<lambda>(u, a). h_timestamp a) (h_answers q) = t # ts"
    by (cases "h_answers q") auto
  then have "latest_timestamp q = fold max ts t" by (simp add: latest_timestamp_def)
  then show ?thesis unfolding ts by (simp only: fold_max_Max)
qed

lemma latest_timestamp_entries:
  assumes "h_answers q \<noteq> []"
  shows "\<exists>(u, en)\<in>set (h_answers q). h_timestamp en = latest_timestamp q"
    and "\<forall>(u, en)\<in>set (h_answers q). h_timestamp en \<le> latest_timestamp q"
proof -
  let ?ts = "map (\<lambda>(u, a). h_timestamp a) (h_answers q)"
  from assms have ne: "set ?ts \<noteq> {}" by simp
  have "Max (set ?ts) \<in> set ?ts" by (rule Max_in [OF finite_set ne])
  then obtain u en where "(u, en) \<in> set (h_answers q)" "h_timestamp en = Max (set ?ts)"
    by auto
  then have "(u, en) \<in> set (h_answers q)" "h_timestamp en = latest_timestamp q"
    by (simp_all only: latest_timestamp_Max [OF assms])
  then show "\<exists>(u, en)\<in>set (h_answers q). h_timestamp en = latest_timestamp q"
    by blast
  have "h_timestamp en \<le> Max (set ?ts)" if "(u, en) \<in> set (h_answers q)" for u en
  proof -
    from that have "h_timestamp en \<in> set ?ts" by force
    then show ?thesis by (rule Max_ge [OF finite_set])
  qed
  then have "h_timestamp en \<le> latest_timestamp q" if "(u, en) \<in> set (h_answers q)" for u en
    using that by (simp only: latest_timestamp_Max [OF assms])
  then show "\<forall>(u, en)\<in>set (h_answers q). h_timestamp en \<le> latest_timestamp q"
    by blast
qed

lemma kept_latest_user:
  assumes "kept_latest seen k kept"
  shows "map_of kept u = None \<longleftrightarrow> \<not> (\<exists>a\<in>seen. question_id a = k \<and> user_id a = u)"
    and "map_of kept u = Some en \<Longrightarrow>
      (\<exists>a\<in>seen. question_id a = k \<and> user_id a = u \<and> timestamp a = h_timestamp en
          \<and> audioUrl en = url_for_serve_audio (audio_filename a))
      \<and> (\<forall>a\<in>seen. question_id a = k \<and> user_id a = u \<longrightarrow> timestamp a \<le> h_timestamp en)"
proof -
  from assms have l: "latest_for seen k u (map_of kept u)"
    unfolding kept_latest_def by blast
  show "map_of kept u = None \<longleftrightarrow> \<not> (\<exists>a\<in>seen. question_id a = k \<and> user_id a = u)"
  proof (cases "map_of kept u")
    case None
    with l show ?thesis unfolding latest_for_def by auto
  next
    case (Some en')
    with l show ?thesis unfolding latest_for_def by auto
  qed
  assume "map_of kept u = Some en"
  with l show "(\<exists>a\<in>seen. question_id a = k \<and> user_id a = u \<and> timestamp a = h_timestamp en
          \<and> audioUrl en = url_for_serve_audio (audio_filename a))
      \<and> (\<forall>a\<in>seen. question_id a = k \<and> user_id a = u \<longrightarrow> timestamp a \<le> h_timestamp en)"
    unfolding latest_for_def by (auto simp: entry_of_def)
qed

lemma kept_latest_empty:
  assumes "kept_latest seen k kept" "\<forall>a\<in>seen. question_id a \<noteq> k"
  shows "kept = []"
proof (cases kept)
  case Nil
  then show ?thesis .
next
  case (Cons p ps)
  then have "map_of kept (fst p) = Some (snd p)" by simp
  from kept_latest_user(2) [OF assms(1) this] assms(2) show ?thesis by blast
qed

lemma kept_latest_timestamp:
  assumes "kept_latest seen k (h_answers q)" "b \<in> seen" "question_id b = k"
  shows "h_answers q \<noteq> []"
    and "\<exists>a\<in>seen. question_id a = k \<and> timestamp a = latest_timestamp q"
    and "\<forall>a\<in>seen. question_id a = k \<longrightarrow> timestamp a \<le> latest_timestamp q"
proof -
  have entry: "\<exists>en. map_of (h_answers q) (user_id a) = Some en \<and> timestamp a \<le> h_timestamp en"
    if "a \<in> seen" "question_id a = k" for a
  proof -
    from kept_latest_user(1) [OF assms(1), of "user_id a"] that
    obtain en where en: "map_of (h_answers q) (user_id a) = Some en" by auto
    from kept_latest_user(2) [OF assms(1) en] that have "timestamp a \<le> h_timestamp en" by blast
    with en show ?thesis by blast
  qed
  from entry [OF assms(2,3)] show ne: "h_answers q \<noteq> []" by auto
  from latest_timestamp_entries(1) [OF ne] obtain u en where
    mem: "(u, en) \<in> set (h_answers q)" and top: "h_timestamp en = latest_timestamp q" by blast
  from assms(1) have "distinct (map fst (h_answers q))" unfolding kept_latest_def by blast
  with mem have "map_of (h_answers q) u = Some en" by simp
  from kept_latest_user(2) [OF assms(1) this] top
  show "\<exists>a\<in>seen. question_id a = k \<and> timestamp a = latest_timestamp q" by auto
  show "\<forall>a\<in>seen. question_id a = k \<longrightarrow> timestamp a \<le> latest_timestamp q"
  proof (intro ballI impI)
    fix a assume a: "a \<in> seen" "question_id a = k"
    from entry [OF a] obtain en where
      en: "map_of (h_answers q) (user_id a) = Some en" "timestamp a \<le> h_timestamp en" by blast
    from en(1) have "(user_id a, en) \<in> set (h_answers q)" by (rule map_of_SomeD)
    with latest_timestamp_entries(2) [OF ne] have "h_timestamp en \<le> latest_timestamp q" by blast
    with en(2) show "timestamp a \<le> latest_timestamp q" by simp
  qed
qed

lemma distinct_map_sort_key:
  "distinct (map g (sort_key f xs)) = distinct (map g xs)"
  by (simp add: distinct_map)

lemma get_history_Ok:
  "get_history False db
     = Ok (sort_key (\<lambda>q. - latest_timestamp q) (map snd (collect_answers db)))"
  by (simp add: get_history_def)

lemma ex_get_history: "get_history False ex_hist_db = Ok ex_history"
  by (simp add: get_history_def collect_answers_def select_answers_desc_def
      select_questions_desc_def questions_dict_def add_answer_def url_for_serve_audio_def
      latest_timestamp_def ex_hist_db_def ex_history_def ex_row_def Let_def)

text \<open>
  C6. The history lists every stored question once. Under a question there is at most
  one entry per user: a user has an entry exactly when an answer row of that user for
  the question exists, and the entry is that of a row whose timestamp is the greatest
  among those rows. The sort key of a question is the greatest timestamp of all its
  answers, and 0 when it has none; the list is in descending order of the key. When
  every stored timestamp is positive (they are milliseconds since 1970), a question
  without answers is followed only by questions without answers.
\<close>

theorem get_history_latest_per_user:
  "\<exists>hl. get_history False db = Ok hl
     \<and> distinct (map h_id hl)
     \<and> h_id ` set hl = q_id ` set (questions db)
     \<and> (\<forall>hq\<in>set hl.
          (\<exists>q\<in>set (questions db). q_id q = h_id hq \<and> q_text q = h_text hq)
          \<and> distinct (map fst (h_answers hq))
          \<and> (\<forall>u. (map_of (h_answers hq) u = None \<longleftrightarrow>
                    \<not> (\<exists>a\<in>set (answers db). question_id a = h_id hq \<and> user_id a = u))
               \<and> (\<forall>en. map_of (h_answers hq) u = Some en \<longrightarrow>
                     (\<exists>a\<in>set (answers db). question_id a = h_id hq \<and> user_id a = u
                        \<and> timestamp a = h_timestamp en
                        \<and> audioUrl en = url_for_serve_audio (audio_filename a))
                     \<and> (\<forall>a\<in>set (answers db). question_id a = h_id hq \<and> user_id a = u
                           \<longrightarrow> timestamp a \<le> h_timestamp en)))
          \<and> ((\<forall>a\<in>set (answers db). question_id a \<noteq> h_id hq) \<longrightarrow>
                h_answers hq = [] \<and> latest_timestamp hq = 0)
          \<and> ((\<exists>a\<in>set (answers db). question_id a = h_id hq) \<longrightarrow>
                h_answers hq \<noteq> []
                \<and> (\<exists>a\<in>set (answers db). question_id a = h_id hq
                      \<and> timestamp a = latest_timestamp hq)
                \<and> (\<forall>a\<in>set (answers db). question_id a = h_id hq
                      \<longrightarrow> timestamp a \<le> latest_timestamp hq)))
     \<and> sorted_wrt (\<lambda>q q'. latest_timestamp q' \<le> latest_timestamp q) hl
     \<and> ((\<forall>a\<in>set (answers db). 0 < timestamp a) \<longrightarrow>
          (\<forall>i j. i < j \<and> j < length hl \<and> h_answers (hl ! i) = []
              \<longrightarrow> h_answers (hl ! j) = []))"
proof -
  define hl where "hl = sort_key (\<lambda>q. - latest_timestamp q) (map snd (collect_answers db))"
  have res: "get_history False db = Ok hl"
    unfolding hl_def by (rule get_history_Ok)
  have set_hl: "set hl = snd ` set (collect_answers db)"
    by (simp add: hl_def)
  have dist: "distinct (map fst (collect_answers db))"
    using history_inv_collect_answers [of db] unfolding history_inv_def by blast
  have c1: "distinct (map h_id hl)"
  proof -
    from dist have "distinct (map h_id (map snd (collect_answers db)))"
      by (simp only: collect_answers_ids)
    then show ?thesis by (simp only: hl_def distinct_map_sort_key)
  qed
  have c2: "h_id ` set hl = q_id ` set (questions db)"
  proof -
    have "h_id ` set hl = set (map h_id (map snd (collect_answers db)))"
      by (simp add: set_hl image_image)
    also have "\<dots> = fst ` set (questions_dict (select_questions_desc db))"
      by (simp only: collect_answers_ids collect_answers_keys set_map)
    also have "\<dots> = q_id ` set (questions db)"
      by (simp add: questions_dict_dom select_questions_desc_def)
    finally show ?thesis .
  qed
  have entry: "kept_latest (set (answers db)) (h_id hq) (h_answers hq)"
    and known: "\<exists>q\<in>set (questions db). q_id q = h_id hq \<and> q_text q = h_text hq"
    if "hq \<in> set hl" for hq
  proof -
    from that obtain k where k: "(k, hq) \<in> set (collect_answers db)"
      unfolding set_hl by auto
    from collect_answers_entry [OF k]
    show "kept_latest (set (answers db)) (h_id hq) (h_answers hq)"
      "\<exists>q\<in>set (questions db). q_id q = h_id hq \<and> q_text q = h_text hq"
      by simp_all
  qed
  have c3: "(\<exists>q\<in>set (questions db). q_id q = h_id hq \<and> q_text q = h_text hq)
          \<and> distinct (map fst (h_answers hq))
          \<and> (\<forall>u. (map_of (h_answers hq) u = None \<longleftrightarrow>
                    \<not> (\<exists>a\<in>set (answers db). question_id a = h_id hq \<and> user_id a = u))
               \<and> (\<forall>en. map_of (h_answers hq) u = Some en \<longrightarrow>
                     (\<exists>a\<in>set (answers db). question_id a = h_id hq \<and> user_id a = u
                        \<and> timestamp a = h_timestamp en
                        \<and> audioUrl en = url_for_serve_audio (audio_filename a))
                     \<and> (\<forall>a\<in>set (answers db). question_id a = h_id hq \<and> user_id a = u
                           \<longrightarrow> timestamp a \<le> h_timestamp en)))
          \<and> ((\<forall>a\<in>set (answers db). question_id a \<noteq> h_id hq) \<longrightarrow>
                h_answers hq = [] \<and> latest_timestamp hq = 0)
          \<and> ((\<exists>a\<in>set (answers db). question_id a = h_id hq) \<longrightarrow>
                h_answers hq \<noteq> []
                \<and> (\<exists>a\<in>set (answers db). question_id a = h_id hq
                      \<and> timestamp a = latest_timestamp hq)
                \<and> (\<forall>a\<in>set (answers db). question_id a = h_id hq
                      \<longrightarrow> timestamp a \<le> latest_timestamp hq))"
    if hq: "hq \<in> set hl" for hq
  proof (intro conjI allI impI)
    note k = entry [OF hq]
    show "\<exists>q\<in>set (questions db). q_id q = h_id hq \<and> q_text q = h_text hq"
      by (rule known [OF hq])
    show "distinct (map fst (h_answers hq))"
      using k unfolding kept_latest_def by blast
    show "map_of (h_answers hq) u = None \<longleftrightarrow>
        \<not> (\<exists>a\<in>set (answers db). question_id a = h_id hq \<and> user_id a = u)" for u
      by (rule kept_latest_user(1) [OF k])
    show "\<exists>a\<in>set (answers db). question_id a = h_id hq \<and> user_id a = u
            \<and> timestamp a = h_timestamp en
            \<and> audioUrl en = url_for_serve_audio (audio_filename a)"
      if "map_of (h_answers hq) u = Some en" for u en
      using kept_latest_user(2) [OF k that] by blast
    show "\<forall>a\<in>set (answers db). question_id a = h_id hq \<and> user_id a = u
            \<longrightarrow> timestamp a \<le> h_timestamp en"
      if "map_of (h_answers hq) u = Some en" for u en
      using kept_latest_user(2) [OF k that] by blast
    show "h_answers hq = []" if "\<forall>a\<in>set (answers db). question_id a \<noteq> h_id hq"
      by (rule kept_latest_empty [OF k that])
    then show "latest_timestamp hq = 0" if "\<forall>a\<in>set (answers db). question_id a \<noteq> h_id hq"
      using that by (simp add: latest_timestamp_Nil)
    assume "\<exists>a\<in>set (answers db). question_id a = h_id hq"
    then obtain b where b: "b \<in> set (answers db)" "question_id b = h_id hq" by blast
    from kept_latest_timestamp [OF k b]
    show "h_answers hq \<noteq> []"
      "\<exists>a\<in>set (answers db). question_id a = h_id hq \<and> timestamp a = latest_timestamp hq"
      "\<forall>a\<in>set (answers db). question_id a = h_id hq \<longrightarrow> timestamp a \<le> latest_timestamp hq"
      by blast+
  qed
  have c4: "sorted_wrt (\<lambda>q q'. latest_timestamp q' \<le> latest_timestamp q) hl"
    unfolding hl_def by (rule sort_key_neg_descending)
  have c5: "h_answers (hl ! j) = []"
    if pos: "\<forall>a\<in>set (answers db). 0 < timestamp a"
      and ij: "i < j" "j < length hl" and none: "h_answers (hl ! i) = []" for i j
  proof (rule ccontr)
    assume ne: "h_answers (hl ! j) \<noteq> []"
    from ij have mem: "hl ! j \<in> set hl" by simp
    from c4 ij have le: "latest_timestamp (hl ! j) \<le> latest_timestamp (hl ! i)"
      by (simp add: sorted_wrt_iff_nth_less)
    from none have zero: "latest_timestamp (hl ! i) = 0" by (rule latest_timestamp_Nil)
    from c3 [OF mem] ne have "\<exists>a\<in>set (answers db). question_id a = h_id (hl ! j)"
      by blast
    with c3 [OF mem] obtain a where "a \<in> set (answers db)"
      "timestamp a = latest_timestamp (hl ! j)" by blast
    with pos have "0 < latest_timestamp (hl ! j)" by auto
    with le zero show False by simp
  qed
  have c5': "(\<forall>a\<in>set (answers db). 0 < timestamp a) \<longrightarrow>
          (\<forall>i j. i < j \<and> j < length hl \<and> h_answers (hl ! i) = []
              \<longrightarrow> h_answers (hl ! j) = [])"
    using c5 by blast
  show ?thesis
    by (intro exI [of _ hl] conjI) (rule res c1 c2 c4 c5' ballI [OF c3] | assumption)+
qed

theorem get_history_latest_per_user_witness:
  "get_history False ex_hist_db = Ok ex_history
   \<and> list_all (\<lambda>a. 0 < timestamp a) (answers ex_hist_db)
   \<and> h_answers (ex_history ! 2) = [] \<and> h_answers (ex_history ! 3) = []
   \<and> map_of (h_answers (ex_history ! 0)) ''nidhi''
       = Some \<lparr>audioUrl = ''/api/audio/u4.webm'', h_timestamp = 3000\<rparr>
   \<and> ex_row 2 ''nidhi'' ''u3.webm'' 1500 \<in> set (answers ex_hist_db)
   \<and> timestamp (ex_row 2 ''nidhi'' ''u3.webm'' 1500) \<le> 3000
   \<and> sorted_wrt (\<lambda>q q'. latest_timestamp q' \<le> latest_timestamp q) ex_history"
  using get_history_latest_per_user [of ex_hist_db]
proof (elim exE, goal_cases)
  case (1 hl)
  let ?en = "\<lparr>audioUrl = ''/api/audio/u4.webm'', h_timestamp = 3000\<rparr>"
  let ?row = "ex_row 2 ''nidhi'' ''u3.webm'' 1500"
  note hl = 1 [THEN conjunct1]
  note rest = 1 [THEN conjunct2, THEN conjunct2, THEN conjunct2]
  note per_question = rest [THEN conjunct1]
  note ordered = rest [THEN conjunct2, THEN conjunct1]
  note last = rest [THEN conjunct2, THEN conjunct2]
  from hl have eq: "hl = ex_history" by (simp add: ex_get_history)
  have pos: "\<forall>a\<in>set (answers ex_hist_db). 0 < timestamp a"
    by (simp add: ex_hist_db_def ex_row_def)
  have third: "h_answers (ex_history ! 2) = []"
    by (simp add: ex_history_def)
  have "(2::nat) < 3 \<and> 3 < length hl \<and> h_answers (hl ! 2) = []"
    unfolding eq by (simp add: ex_history_def)
  with last [THEN mp, OF pos, THEN spec, of 2, THEN spec, of 3]
  have "h_answers (hl ! 3) = []" by (rule mp)
  then have fourth: "h_answers (ex_history ! 3) = []" unfolding eq .
  have first: "ex_history ! 0 \<in> set hl"
    and kept: "map_of (h_answers (ex_history ! 0)) ''nidhi'' = Some ?en"
    and id0: "h_id (ex_history ! 0) = 2"
    unfolding eq by (simp_all add: ex_history_def)
  have row: "?row \<in> set (answers ex_hist_db)" "question_id ?row = 2" "user_id ?row = ''nidhi''"
    by (simp_all add: ex_hist_db_def ex_row_def)
  note per_user = per_question [THEN bspec, OF first, THEN conjunct2, THEN conjunct2,
      THEN conjunct1, THEN spec, of "''nidhi''", THEN conjunct2, THEN spec, of ?en,
      THEN mp, OF kept, THEN conjunct2, THEN bspec, OF row(1)]
  from per_user row id0 have le: "timestamp ?row \<le> 3000" by simp
  from pos have "list_all (\<lambda>a. 0 < timestamp a) (answers ex_hist_db)"
    by (simp only: list_all_iff)
  with ex_get_history third fourth kept row(1) le ordered [unfolded eq]
  show ?case by (intro conjI)
qed

end
